theory Spec2Isabelle
  imports Complex_Main "HOL-Library.AList" "HOL-Library.Multiset"
begin

section \<open>JavaScript values\<close>

text \<open>
  The analyser is JavaScript. A number is read here as the exact value it denotes: counts
  are \<open>nat\<close>, scores and day counts are \<open>int\<close>, per-year rates and weighted sums are
  \<open>rat\<close>. A field that the code reads with \<open>?.\<close> or defaults with \<open>||\<close> is an
  \<open>option\<close>: \<open>None\<close> is \<open>undefined\<close>/\<open>null\<close>.

  Every JavaScript number is a double. Comparisons and the arithmetic of integers of the
  size met here are exact. Where the code multiplies and adds fractions, in the weighted
  sum of the composite score and in the hours estimate, each product and each sum is
  rounded to the nearest double, a tie going to the even significand: \<open>toDouble\<close> is that
  rounding on the exact value, with 53 significant bits and the exponent not below the
  subnormal one. A per-year rate of the input is taken to be a double as it stands. Beyond
  the largest double the code has \<open>Infinity\<close>, which no number met here comes near.

  The three quotients of the code are read exactly. Half the number of recent releases is
  a double. The whole days since a release and the rounded mean of the summary are
  integers read off a quotient of two integers; rounding that quotient to a double first
  gives another integer only where it lies within one part in \<open>2^53\<close> of an integer or
  of a half, which takes a time value or a sum of scores of the order of \<open>2^52\<close>.
\<close>

definition pow2 :: "int \<Rightarrow> rat" where
  "pow2 e = (if 0 \<le> e then 2 ^ nat e else 1 / 2 ^ nat (- e))"

definition roundEven :: "rat \<Rightarrow> int" where
  "roundEven q =
     (let n = \<lfloor>q\<rfloor>; r = q - of_int n
      in if r < 1 / 2 then n
         else if 1 / 2 < r then n + 1
         else if even n then n else n + 1)"

text \<open>
  The exponent \<open>e\<close> of the last significant bit of a positive \<open>x\<close>: the one that puts
  \<open>x / 2^e\<close> between \<open>2^52\<close> and \<open>2^53\<close>, or \<open>-1074\<close> for a subnormal \<open>x\<close>.
\<close>

function expUp :: "rat \<Rightarrow> int \<Rightarrow> int" where
  "expUp m e = (if m < 2 ^ 52 \<and> - 1074 < e then expUp (2 * m) (e - 1) else e)"
  by pat_completeness auto
termination
  by (relation "measure (\<lambda>(m, e). nat (e + 1074))") auto

function expDown :: "rat \<Rightarrow> int \<Rightarrow> int" where
  "expDown m e = (if 2 ^ 53 \<le> m then expDown (m / 2) (e + 1) else e)"
  by pat_completeness auto
termination
proof (relation "measure (\<lambda>(m, e). nat \<lfloor>m\<rfloor>)")
  show "wf (measure (\<lambda>(m::rat, e::int). nat \<lfloor>m\<rfloor>))" by simp
next
  fix m :: rat and e :: int
  assume big: "2 ^ 53 \<le> m"
  have "of_int \<lfloor>m / 2\<rfloor> \<le> m / 2" by (rule of_int_floor_le)
  moreover have "m / 2 < m - 1" using big by simp
  moreover have "m - 1 < of_int \<lfloor>m\<rfloor>" by linarith
  ultimately have "(of_int \<lfloor>m / 2\<rfloor> :: rat) < of_int \<lfloor>m\<rfloor>" by linarith
  then have lt: "\<lfloor>m / 2\<rfloor> < \<lfloor>m\<rfloor>" by simp
  have "0 < \<lfloor>m\<rfloor>" using big by simp
  with lt show "((m / 2, e + 1), (m, e)) \<in> measure (\<lambda>(m, e). nat \<lfloor>m\<rfloor>)"
    by simp
qed

declare expUp.simps [simp del] expDown.simps [simp del]

definition exponentOf :: "rat \<Rightarrow> int" where
  "exponentOf x = (if x < 2 ^ 53 then expUp x 0 else expDown x 0)"

definition toDouble :: "rat \<Rightarrow> rat" where
  "toDouble x =
     (if x = 0 then 0
      else let e = exponentOf \<bar>x\<bar> in of_int (roundEven (x / pow2 e)) * pow2 e)"

text \<open>\<open>a + b\<close> and \<open>a * b\<close> on numbers.\<close>

definition js_add :: "rat \<Rightarrow> rat \<Rightarrow> rat" where
  "js_add a b = toDouble (a + b)"

definition js_mul :: "rat \<Rightarrow> rat \<Rightarrow> rat" where
  "js_mul a b = toDouble (a * b)"

text \<open>\<open>x || d\<close> on a number: \<open>undefined\<close>, \<open>null\<close> and \<open>0\<close> are falsy and give \<open>d\<close>.\<close>

definition falsy_or :: "'a::zero option \<Rightarrow> 'a \<Rightarrow> 'a" where
  "falsy_or x d = (case x of None \<Rightarrow> d | Some v \<Rightarrow> if v = 0 then d else v)"

text \<open>
  \<open>Math.round\<close>: the nearest integer, a tie going towards plus infinity; exact on every
  double.
\<close>

definition Math_round :: "rat \<Rightarrow> int" where
  "Math_round q = \<lfloor>q + 1 / 2\<rfloor>"

text \<open>\<open>Math.max(0, Math.min(100, score))\<close>.\<close>

definition clamp100 :: "int \<Rightarrow> int" where
  "clamp100 s = max 0 (min 100 s)"

section \<open>Data model\<close>

datatype RiskLevel = LOW | MEDIUM | ELEVATED | HIGH | CRITICAL

record SeverityCounts =
  sev_CRITICAL :: "nat option"
  sev_HIGH :: "nat option"
  sev_MODERATE :: "nat option"
  sev_LOW :: "nat option"
  sev_UNKNOWN :: "nat option"

record CVEMetrics =
  totalCVEs :: "nat option"
  avgCVEsPerYear :: "rat option"
  criticalCVEsPerYear :: "rat option"
  highCVEsPerYear :: "rat option"
  bySeverity :: "SeverityCounts option"

record MaintenanceMetrics =
  m_score :: "int option"
  lastReleaseDate :: "int option"
  daysSinceLastRelease :: "int option"
  releaseFrequency :: "string option"
  releasesPerYear :: "rat option"
  totalVersions :: "nat option"
  activelyMaintained :: "bool option"

record ComplexityMetrics =
  c_score :: "int option"
  directDependencies :: "nat option"
  totalDependencies :: "nat option"
  complexityLevel :: "string option"

record PackageMetrics =
  found :: bool
  maintenance :: "MaintenanceMetrics option"
  complexity :: "ComplexityMetrics option"

record FactorScore =
  f_score :: int
  f_weight :: rat
  f_weightedScore :: int

record Breakdown =
  historicalCVEs :: FactorScore
  maintenanceHealth :: FactorScore
  dependencyComplexity :: FactorScore
  technicalLag :: FactorScore
  communitySignals :: FactorScore

record CompositeScore =
  totalScore :: int
  riskLevel :: RiskLevel
  estimatedAnnualMaintenanceHours :: int
  breakdown :: Breakdown

section \<open>The score calculator\<close>

text \<open>The \<open>WEIGHTS\<close> table: each literal is the double nearest to the decimal written.\<close>

definition W_historicalCVEs :: rat where "W_historicalCVEs = toDouble (50 / 100)"
definition W_maintenance :: rat where "W_maintenance = toDouble (10 / 100)"
definition W_complexity :: rat where "W_complexity = toDouble (15 / 100)"
definition W_technicalLag :: rat where "W_technicalLag = toDouble (15 / 100)"
definition W_communitySignals :: rat where "W_communitySignals = toDouble (10 / 100)"

text \<open>
  \<open>calculateCVEScore\<close>. The argument may be absent (\<open>!cveMetrics\<close>); \<open>totalCVEs === 0\<close> is
  strict, so an absent count is not zero.
\<close>

definition calculateCVEScore :: "CVEMetrics option \<Rightarrow> int" where
  "calculateCVEScore cveMetrics =
     (case cveMetrics of
        None \<Rightarrow> 100
      | Some m \<Rightarrow>
          if totalCVEs m = Some 0 then 100
          else
            let score = 100;
                avgPerYear = falsy_or (avgCVEsPerYear m) 0;
                score = (if avgPerYear > 10 then score - 70
                         else if avgPerYear > 5 then score - 50
                         else if avgPerYear > 2 then score - 30
                         else if avgPerYear > 1 then score - 20
                         else if avgPerYear > 1 / 2 then score - 10
                         else score);
                criticalPerYear = falsy_or (criticalCVEsPerYear m) 0;
                highPerYear = falsy_or (highCVEsPerYear m) 0;
                score = (if criticalPerYear > 2 then score - 20
                         else if criticalPerYear > 1 then score - 15
                         else if criticalPerYear > 1 / 2 then score - 10
                         else score);
                score = (if highPerYear > 3 then score - 15
                         else if highPerYear > 1 then score - 10
                         else score)
            in clamp100 score)"

text \<open>
  \<open>calculateTechnicalLagScore\<close>. \<open>bySeverity?.CRITICAL + bySeverity?.HIGH || 0\<close> parses as
  \<open>(CRITICAL + HIGH) || 0\<close>; the sum is \<open>NaN\<close>, hence falsy, as soon as one of the two
  counts is absent.
\<close>

definition recentCVEs :: "CVEMetrics \<Rightarrow> nat" where
  "recentCVEs cveMetrics =
     (case bySeverity cveMetrics of
        None \<Rightarrow> 0
      | Some sev \<Rightarrow>
          (case (sev_CRITICAL sev, sev_HIGH sev) of
             (Some c, Some h) \<Rightarrow> c + h
           | _ \<Rightarrow> 0))"

definition calculateTechnicalLagScore :: "CVEMetrics \<Rightarrow> MaintenanceMetrics \<Rightarrow> int" where
  "calculateTechnicalLagScore cveMetrics maintenanceMetrics =
     (let score = 100;
          daysSinceRelease = falsy_or (daysSinceLastRelease maintenanceMetrics) 0;
          score = (if daysSinceRelease > 730 then score - 50
                   else if daysSinceRelease > 365 then score - 30
                   else if daysSinceRelease > 180 then score - 15
                   else score);
          recent = recentCVEs cveMetrics;
          score = (if recent > 5 then score - 40
                   else if recent > 2 then score - 25
                   else if recent > 0 then score - 15
                   else score)
      in clamp100 score)"

text \<open>
  \<open>estimateMaintenanceHours\<close>, on the pair \<open>{cve, metadata}\<close>. Each \<open>hours += ...\<close> is a
  product and a sum of doubles.
\<close>

definition estimateMaintenanceHours :: "CVEMetrics \<Rightarrow> PackageMetrics \<Rightarrow> int" where
  "estimateMaintenanceHours cve metadata =
     (let hours = js_add 0 2;
          hours = js_add hours (js_mul (falsy_or (avgCVEsPerYear cve) 0) 2);
          hours = js_add hours (js_mul (falsy_or (criticalCVEsPerYear cve) 0) 4);
          directDeps = falsy_or (Option.bind (complexity metadata) directDependencies) 0;
          hours = js_add hours (js_mul (of_nat directDeps) (toDouble (2 / 10)));
          freq = Option.bind (maintenance metadata) releaseFrequency;
          hours = (if freq = Some ''abandoned'' then js_add hours 10
                   else if freq = Some ''low'' then js_add hours 5
                   else hours)
      in Math_round hours)"

definition getRiskLevel :: "int \<Rightarrow> RiskLevel" where
  "getRiskLevel score =
     (if score \<ge> 80 then LOW
      else if score \<ge> 60 then MEDIUM
      else if score \<ge> 40 then ELEVATED
      else if score \<ge> 20 then HIGH
      else CRITICAL)"

text \<open>The empty object \<open>{}\<close> that stands in for an absent maintenance record.\<close>

definition emptyMaintenance :: MaintenanceMetrics where
  "emptyMaintenance =
     \<lparr>m_score = None, lastReleaseDate = None, daysSinceLastRelease = None,
      releaseFrequency = None, releasesPerYear = None, totalVersions = None,
      activelyMaintained = None\<rparr>"

definition factor :: "int \<Rightarrow> rat \<Rightarrow> FactorScore" where
  "factor s w =
     \<lparr>f_score = s, f_weight = w, f_weightedScore = Math_round (js_mul (of_int s) w)\<rparr>"

text \<open>
  \<open>calculateCompositeScore\<close>. The weighted sum adds the five products from left to right,
  each product and each sum a double. The breakdown keeps the score, the weight and the
  rounded weighted score of each factor; the fields it merely copies from the inputs for
  display are left out.
\<close>

definition calculateCompositeScore :: "CVEMetrics \<Rightarrow> PackageMetrics \<Rightarrow> CompositeScore" where
  "calculateCompositeScore cveMetrics packageMetrics =
     (let cveScore = calculateCVEScore (Some cveMetrics);
          maintenanceScore = falsy_or (Option.bind (maintenance packageMetrics) m_score) 50;
          complexityScore = falsy_or (Option.bind (complexity packageMetrics) c_score) 50;
          technicalLagScore =
            calculateTechnicalLagScore cveMetrics
              (case maintenance packageMetrics of None \<Rightarrow> emptyMaintenance | Some m \<Rightarrow> m);
          communityScore = 50;
          compositeScore =
            Math_round
              (js_add
                (js_add
                  (js_add
                    (js_add (js_mul (of_int cveScore) W_historicalCVEs)
                            (js_mul (of_int maintenanceScore) W_maintenance))
                    (js_mul (of_int complexityScore) W_complexity))
                  (js_mul (of_int technicalLagScore) W_technicalLag))
                (js_mul (of_int communityScore) W_communitySignals));
          estimatedHours = estimateMaintenanceHours cveMetrics packageMetrics;
          risk = getRiskLevel compositeScore
      in \<lparr>totalScore = compositeScore,
          riskLevel = risk,
          estimatedAnnualMaintenanceHours = estimatedHours,
          breakdown =
            \<lparr>historicalCVEs = factor cveScore W_historicalCVEs,
             maintenanceHealth = factor maintenanceScore W_maintenance,
             dependencyComplexity = factor complexityScore W_complexity,
             technicalLag = factor technicalLagScore W_technicalLag,
             communitySignals = factor communityScore W_communitySignals\<rparr>\<rparr>)"

section \<open>Registry metadata\<close>

text \<open>
  The registry's answers, typed. \<open>publishedAt\<close> holds the time value (milliseconds since
  the epoch) of a well-formed timestamp, \<open>None\<close> when the field is missing, so that
  \<open>new Date(v.publishedAt || 0)\<close> is \<open>timeOf v\<close>. \<open>Date.now()\<close> is the parameter \<open>now\<close>.
\<close>

record VersionKey =
  vk_name :: string
  vk_version :: "string option"

record PackageVersion =
  versionKey :: "VersionKey option"
  publishedAt :: "int option"

record PackageInfo =
  versions :: "PackageVersion list option"

record VersionInfo =
  dependencies :: "string list option"

record Overrides =
  o_directDependencies :: "nat option"
  o_totalDependencies :: "nat option"

record GraphNode =
  n_versionKey :: "VersionKey option"
  n_relation :: "string option"

record DependencyGraph =
  nodes :: "GraphNode list option"

record TreePackage =
  tp_name :: string
  tp_version :: "string option"
  tp_relation :: string

definition timeOf :: "PackageVersion \<Rightarrow> int" where
  "timeOf v = (case publishedAt v of None \<Rightarrow> 0 | Some t \<Rightarrow> t)"

text \<open>
  \<open>[...versions].sort((a, b) => dateB - dateA)\<close>: newest first. \<open>Array.prototype.sort\<close> is
  stable, as is \<open>sort_key\<close>.
\<close>

definition byPublishDateDesc :: "PackageVersion list \<Rightarrow> PackageVersion list" where
  "byPublishDateDesc vs = sort_key (\<lambda>v. - timeOf v) vs"

text \<open>\<open>v.versionKey?.version\<close>.\<close>

definition versionOf :: "PackageVersion \<Rightarrow> string option" where
  "versionOf v = Option.bind (versionKey v) vk_version"

text \<open>A string is truthy when it is present and not empty.\<close>

definition truthy :: "string option \<Rightarrow> bool" where
  "truthy s = (case s of None \<Rightarrow> False | Some t \<Rightarrow> t \<noteq> [])"

text \<open>A \<open>null\<close> day count compares as the number \<open>0\<close>.\<close>

definition null_as_0 :: "int option \<Rightarrow> int" where
  "null_as_0 d = (case d of None \<Rightarrow> 0 | Some n \<Rightarrow> n)"

text \<open>
  \<open>calculateMaintenanceMetrics\<close>. \<open>lastReleaseDate\<close> keeps the time value instead of its
  ISO rendering.
\<close>

definition calculateMaintenanceMetrics :: "int \<Rightarrow> PackageInfo option \<Rightarrow> MaintenanceMetrics" where
  "calculateMaintenanceMetrics now packageInfo =
     (case Option.bind packageInfo versions of
        None \<Rightarrow>
          \<lparr>m_score = Some 0, lastReleaseDate = None, daysSinceLastRelease = None,
           releaseFrequency = Some ''unknown'', releasesPerYear = None,
           totalVersions = Some 0, activelyMaintained = Some False\<rparr>
      | Some vs \<Rightarrow>
          let sortedVersions = byPublishDateDesc vs;
              lastRelease = (case sortedVersions of [] \<Rightarrow> None | latest # _ \<Rightarrow> publishedAt latest);
              daysSince = map_option (\<lambda>t. (now - t) div (1000 * 60 * 60 * 24)) lastRelease;
              twoYearsAgo = now - 2 * 365 * 24 * 60 * 60 * 1000;
              recentReleases = filter (\<lambda>v. timeOf v > twoYearsAgo) vs;
              perYear = (of_nat (length recentReleases) / 2 :: rat);
              frequency = (if perYear > 12 then ''very active''
                           else if perYear > 6 then ''active''
                           else if perYear > 2 then ''moderate''
                           else if perYear > 0 then ''low''
                           else ''abandoned'');
              score = 100;
              score = (if null_as_0 daysSince > 730 then score - 60
                       else if null_as_0 daysSince > 365 then score - 40
                       else if null_as_0 daysSince > 180 then score - 20
                       else if null_as_0 daysSince > 90 then score - 10
                       else score);
              score = (if frequency = ''abandoned'' then score - 30
                       else if frequency = ''low'' then score - 15
                       else score);
              score = clamp100 score
          in \<lparr>m_score = Some score, lastReleaseDate = lastRelease,
              daysSinceLastRelease = daysSince,
              releaseFrequency = Some frequency, releasesPerYear = Some perYear,
              totalVersions = Some (length vs),
              activelyMaintained =
                Some (null_as_0 daysSince < 365 \<and> frequency \<noteq> ''abandoned'')\<rparr>)"

text \<open>
  \<open>calculateComplexityMetrics\<close>. The early return defaults the counts with \<open>||\<close>, the main
  path with \<open>??\<close> (only an absent override falls through).
\<close>

definition calculateComplexityMetrics :: "VersionInfo option \<Rightarrow> Overrides \<Rightarrow> ComplexityMetrics" where
  "calculateComplexityMetrics versionInfo overrides =
     (case Option.bind versionInfo dependencies of
        None \<Rightarrow>
          \<lparr>c_score = Some 100,
           directDependencies = Some (falsy_or (o_directDependencies overrides) 0),
           totalDependencies = Some (falsy_or (o_totalDependencies overrides) 0),
           complexityLevel = Some ''low''\<rparr>
      | Some deps \<Rightarrow>
          let directDeps = (case o_directDependencies overrides of
                              None \<Rightarrow> length deps | Some d \<Rightarrow> d);
              totalDeps = (case o_totalDependencies overrides of
                             None \<Rightarrow> directDeps * 15 | Some t \<Rightarrow> t);
              score = 100;
              score = (if totalDeps > 500 then score - 50
                       else if totalDeps > 200 then score - 35
                       else if totalDeps > 100 then score - 20
                       else if totalDeps > 50 then score - 10
                       else score);
              score = (if directDeps > 50 then score - 20
                       else if directDeps > 30 then score - 15
                       else if directDeps > 15 then score - 10
                       else if directDeps > 5 then score - 5
                       else score);
              score = clamp100 score;
              level = (if totalDeps > 500 then ''very high''
                       else if totalDeps > 200 then ''high''
                       else if totalDeps > 50 then ''moderate''
                       else ''low'')
          in \<lparr>c_score = Some score, directDependencies = Some directDeps,
              totalDependencies = Some totalDeps, complexityLevel = Some level\<rparr>)"

definition noOverrides :: Overrides where
  "noOverrides = \<lparr>o_directDependencies = None, o_totalDependencies = None\<rparr>"

text \<open>
  \<open>extractPackagesFromGraph\<close>. The \<open>seen\<close> set holds the keys \<open>name@version\<close>; a node
  without \<open>versionKey\<close> is skipped.
\<close>

definition nodeKey :: "VersionKey \<Rightarrow> string" where
  "nodeKey k = vk_name k @ ''@'' @ (case vk_version k of None \<Rightarrow> ''undefined'' | Some v \<Rightarrow> v)"

fun extractLoop :: "GraphNode list \<Rightarrow> string list \<Rightarrow> TreePackage list \<Rightarrow> TreePackage list" where
  "extractLoop [] seen packages = packages"
| "extractLoop (node # rest) seen packages =
     (case n_versionKey node of
        None \<Rightarrow> extractLoop rest seen packages
      | Some k \<Rightarrow>
          if nodeKey k \<in> set seen then extractLoop rest seen packages
          else extractLoop rest (nodeKey k # seen)
                 (packages @
                  [\<lparr>tp_name = vk_name k, tp_version = vk_version k,
                    tp_relation = (case n_relation node of
                                     None \<Rightarrow> ''UNKNOWN''
                                   | Some r \<Rightarrow> if r = [] then ''UNKNOWN'' else r)\<rparr>]))"

definition extractPackagesFromGraph :: "DependencyGraph option \<Rightarrow> TreePackage list" where
  "extractPackagesFromGraph dependencyGraph =
     (case Option.bind dependencyGraph nodes of
        None \<Rightarrow> []
      | Some ns \<Rightarrow> extractLoop ns [] [])"

section \<open>The network and the shared cache\<close>

text \<open>
  A finding as the vulnerability source returns it: its identifier and publish date, both
  optional, and \<open>source\<close> for the rest of its content, which tells two copies of one
  finding apart. A lookup either fails (non-2xx status, transport or parse error) or gives
  the parsed body, which is any JSON value: \<open>null\<close>, or a value whose \<open>vulns\<close> property is
  missing (as it is on an object without it, a number, a string or an array) or is, as the
  vulnerability source declares it, a list of findings. The registry and the
  vulnerability source are functions of the request: asking twice gives the same answer.
\<close>

record Finding =
  vuln_id :: "string option"
  published :: "string option"
  source :: string

datatype OsvData = JsonNull | JsonValue "Finding list option"

datatype OsvResponse = Failed | Ok OsvData

datatype Thrown = TypeError

datatype Request =
    OsvQuery string
  | PackageQuery string
  | VersionQuery string string
  | GraphQuery string string

record World =
  osvOf :: "string \<Rightarrow> OsvResponse"
  packageInfoOf :: "string \<Rightarrow> PackageInfo option"
  versionInfoOf :: "string \<Rightarrow> string \<Rightarrow> VersionInfo option"
  graphOf :: "string \<Rightarrow> string \<Rightarrow> DependencyGraph option"

text \<open>
  The state a run threads through its calls: the shared vulnerability cache (a \<open>Map\<close>
  from package name to finding list) and the requests sent so far, oldest first.
\<close>

record NetState =
  vulnCache :: "string \<rightharpoonup> Finding list"
  requests :: "Request list"

definition send :: "Request \<Rightarrow> NetState \<Rightarrow> NetState" where
  "send r st = st\<lparr>requests := requests st @ [r]\<rparr>"

text \<open>
  \<open>queryVulnerabilities\<close>: the \<open>catch\<close> turns every failure into \<open>{ vulns: [] }\<close>; a parsed
  body is returned as it is.
\<close>

definition queryVulnerabilities :: "World \<Rightarrow> string \<Rightarrow> NetState \<Rightarrow> OsvData \<times> NetState" where
  "queryVulnerabilities w packageName st =
     ((case osvOf w packageName of Failed \<Rightarrow> JsonValue (Some []) | Ok data \<Rightarrow> data),
      send (OsvQuery packageName) st)"

definition getPackageInfo :: "World \<Rightarrow> string \<Rightarrow> NetState \<Rightarrow> PackageInfo option \<times> NetState" where
  "getPackageInfo w packageName st = (packageInfoOf w packageName, send (PackageQuery packageName) st)"

definition getVersionInfo :: "World \<Rightarrow> string \<Rightarrow> string \<Rightarrow> NetState \<Rightarrow> VersionInfo option \<times> NetState" where
  "getVersionInfo w packageName v st =
     (versionInfoOf w packageName v, send (VersionQuery packageName v) st)"

definition getDependencyGraph :: "World \<Rightarrow> string \<Rightarrow> string \<Rightarrow> NetState \<Rightarrow> DependencyGraph option \<times> NetState" where
  "getDependencyGraph w packageName v st =
     (graphOf w packageName v, send (GraphQuery packageName v) st)"

text \<open>
  \<open>data.vulns || []\<close>: reading a property of \<open>null\<close> throws; an array, even an empty one,
  is truthy.
\<close>

definition vulns_or_empty :: "OsvData \<Rightarrow> Thrown + Finding list" where
  "vulns_or_empty data =
     (case data of
        JsonNull \<Rightarrow> Inl TypeError
      | JsonValue None \<Rightarrow> Inr []
      | JsonValue (Some xs) \<Rightarrow> Inr xs)"

section \<open>Batch vulnerability lookup\<close>

text \<open>
  A \<open>Map\<close> iterates in insertion order and \<open>set\<close> on a present key keeps the key's place:
  an association list under \<open>AList.update\<close>.
\<close>

type_synonym VulnMap = "(string \<times> Finding list) list"

text \<open>The first loop: names with a cache entry go to \<open>results\<close>, the others to \<open>uncachedNames\<close>.\<close>

fun partitionCached :: "(string \<rightharpoonup> Finding list) \<Rightarrow> string list \<Rightarrow> VulnMap \<Rightarrow> string list \<Rightarrow> VulnMap \<times> string list" where
  "partitionCached cache [] results uncachedNames = (results, uncachedNames)"
| "partitionCached cache (name # rest) results uncachedNames =
     (case cache name of
        Some cached \<Rightarrow> partitionCached cache rest (AList.update name cached results) uncachedNames
      | None \<Rightarrow> partitionCached cache rest results (uncachedNames @ [name]))"

text \<open>
  \<open>Array.prototype.slice(start, end)\<close> on integer arguments: a negative index counts from
  the end, and both are clipped to the array.
\<close>

definition js_slice :: "'a list \<Rightarrow> int \<Rightarrow> int \<Rightarrow> 'a list" where
  "js_slice xs start end' =
     (let n = int (length xs);
          from = (if start < 0 then max (n + start) 0 else min start n);
          to = (if end' < 0 then max (n + end') 0 else min end' n)
      in take (nat (to - from)) (drop (nat from) xs))"

text \<open>
  \<open>Promise.all(batch.map(...))\<close>: the request of every name of the batch is sent, in
  order, before any reply is read. The queries themselves do not reject, but the callback
  reads \<open>data.vulns\<close> outside their \<open>try\<close>: when it throws for one name, the whole
  \<open>Promise.all\<close> rejects and the results of the batch are lost.
\<close>

fun fetchBatch :: "World \<Rightarrow> string list \<Rightarrow> NetState \<Rightarrow> (Thrown + (string \<times> Finding list) list) \<times> NetState" where
  "fetchBatch w [] st = (Inr [], st)"
| "fetchBatch w (name # rest) st =
     (let (data, st1) = queryVulnerabilities w name st;
          (others, st2) = fetchBatch w rest st1
      in (case vulns_or_empty data of
            Inl thrown \<Rightarrow> Inl thrown
          | Inr vulns \<Rightarrow>
              (case others of
                 Inl thrown \<Rightarrow> Inl thrown
               | Inr entries \<Rightarrow> Inr ((name, vulns) # entries)),
          st2))"

text \<open>The loop over \<open>batchResults\<close>: \<open>cache.set\<close> and \<open>results.set\<close>.\<close>

fun storeBatch :: "(string \<times> Finding list) list \<Rightarrow> VulnMap \<times> NetState \<Rightarrow> VulnMap \<times> NetState" where
  "storeBatch [] acc = acc"
| "storeBatch ((name, vulns) # rest) (results, st) =
     storeBatch rest
       (AList.update name vulns results, st\<lparr>vulnCache := (vulnCache st)(name \<mapsto> vulns)\<rparr>)"

text \<open>
  \<open>for (let i = 0; i < uncachedNames.length; i += concurrency)\<close>. The step is whatever
  integer the caller passed; with a step that is not positive the index never passes the
  length, and the loop does not return: the value is then \<open>None\<close>. A batch that rejects
  ends the call with what was thrown; the batches before it are stored.
\<close>

partial_function (option) batchLoop :: "World \<Rightarrow> int \<Rightarrow> string list \<Rightarrow> int \<Rightarrow> VulnMap \<times> NetState \<Rightarrow> ((Thrown + VulnMap) \<times> NetState) option" where
  "batchLoop w concurrency uncachedNames i acc =
     (if i < int (length uncachedNames) then
        (let batch = js_slice uncachedNames i (i + concurrency);
             (batchResults, st1) = fetchBatch w batch (snd acc)
         in case batchResults of
              Inl thrown \<Rightarrow> Some (Inl thrown, st1)
            | Inr fetched \<Rightarrow>
                batchLoop w concurrency uncachedNames (i + concurrency)
                  (storeBatch fetched (fst acc, st1)))
      else Some (Inr (fst acc), snd acc))"

text \<open>
  \<open>queryVulnerabilitiesBatch\<close>, called with the shared cache of the state and an integer
  concurrency limit (the callers of the repository always pass both).
\<close>

definition queryVulnerabilitiesBatch :: "World \<Rightarrow> string list \<Rightarrow> int \<Rightarrow> NetState \<Rightarrow> ((Thrown + VulnMap) \<times> NetState) option" where
  "queryVulnerabilitiesBatch w packageNames concurrency st =
     (let (results, uncachedNames) = partitionCached (vulnCache st) packageNames [] []
      in batchLoop w concurrency uncachedNames 0 (results, st))"

section \<open>Deduplication\<close>

text \<open>
  \<open>deduplicateVulnerabilities\<close>. \<open>seen\<close> is a \<open>Map\<close> from identifier to finding; a key is only
  ever set when it is not there yet, so \<open>set\<close> appends. \<open>vuln.id &&\<close> needs a present,
  non-empty identifier.
\<close>

definition seenHas :: "(string \<times> Finding) list \<Rightarrow> string \<Rightarrow> bool" where
  "seenHas seen i = (i \<in> fst ` set seen)"

fun dedupVulns :: "Finding list \<Rightarrow> (string \<times> Finding) list \<Rightarrow> (string \<times> Finding) list" where
  "dedupVulns [] seen = seen"
| "dedupVulns (vuln # rest) seen =
     (case vuln_id vuln of
        None \<Rightarrow> dedupVulns rest seen
      | Some i \<Rightarrow>
          if i \<noteq> [] \<and> \<not> seenHas seen i then dedupVulns rest (seen @ [(i, vuln)])
          else dedupVulns rest seen)"

fun dedupPackages :: "VulnMap \<Rightarrow> (string \<times> Finding) list \<Rightarrow> (string \<times> Finding) list" where
  "dedupPackages [] seen = seen"
| "dedupPackages ((name, vulns) # rest) seen = dedupPackages rest (dedupVulns vulns seen)"

definition deduplicateVulnerabilities :: "VulnMap \<Rightarrow> Finding list" where
  "deduplicateVulnerabilities vulnsByPackage = map snd (dedupPackages vulnsByPackage [])"

section \<open>Version resolution\<close>

text \<open>
  Modelled from the spec: the \<open>semver\<close> package (\<open>semver.valid\<close>, \<open>semver.maxSatisfying\<close>)
  is a third-party library whose source is not part of the repository. The model covers
  release versions \<open>MAJOR.MINOR.PATCH\<close> (numeric parts without leading zeros) and the range
  syntax the specification names: \<open>^\<close>, \<open>~\<close>, the comparison operators, and comparators
  joined by whitespace, all of which must hold.
\<close>

type_synonym SemVer = "nat \<times> nat \<times> nat"

datatype Operator = Caret | Tilde | GreaterEq | LessEq | Greater | Less | Equal

definition digitOf :: "char \<Rightarrow> nat option" where
  "digitOf c =
     map_of [(CHR ''0'', 0), (CHR ''1'', 1), (CHR ''2'', 2), (CHR ''3'', 3), (CHR ''4'', 4),
             (CHR ''5'', 5), (CHR ''6'', 6), (CHR ''7'', 7), (CHR ''8'', 8), (CHR ''9'', 9)] c"

fun digitsValue :: "string \<Rightarrow> nat \<Rightarrow> nat option" where
  "digitsValue [] acc = Some acc"
| "digitsValue (c # cs) acc =
     (case digitOf c of None \<Rightarrow> None | Some d \<Rightarrow> digitsValue cs (10 * acc + d))"

definition numericId :: "string \<Rightarrow> nat option" where
  "numericId s =
     (if s = [] then None
      else if hd s = CHR ''0'' \<and> length s > 1 then None
      else digitsValue s 0)"

fun splitOn :: "char \<Rightarrow> string \<Rightarrow> string list" where
  "splitOn sep [] = [] # []"
| "splitOn sep (c # cs) =
     (if c = sep then [] # splitOn sep cs
      else (case splitOn sep cs of [] \<Rightarrow> [c] # [] | w # ws \<Rightarrow> (c # w) # ws))"

definition parseVersion :: "string \<Rightarrow> SemVer option" where
  "parseVersion s =
     (case map numericId (splitOn (CHR ''.'') s) of
        [Some major, Some minor, Some patch] \<Rightarrow> Some (major, minor, patch)
      | _ \<Rightarrow> None)"

text \<open>Modelled from the spec: \<open>semver.valid\<close>, "a valid concrete version".\<close>

definition semver_valid :: "string \<Rightarrow> bool" where
  "semver_valid s = (parseVersion s \<noteq> None)"

text \<open>Precedence: major, then minor, then patch.\<close>

fun versionLess :: "SemVer \<Rightarrow> SemVer \<Rightarrow> bool" where
  "versionLess (a, b, c) (a', b', c') =
     (a < a' \<or> (a = a' \<and> (b < b' \<or> (b = b' \<and> c < c'))))"

definition versionLessEq :: "SemVer \<Rightarrow> SemVer \<Rightarrow> bool" where
  "versionLessEq u v = (versionLess u v \<or> u = v)"

definition parseComparator :: "string \<Rightarrow> (Operator \<times> SemVer) option" where
  "parseComparator s =
     (case s of
        [] \<Rightarrow> None
      | c # r \<Rightarrow>
          if c = CHR ''^'' then map_option (Pair Caret) (parseVersion r)
          else if c = CHR ''~'' then map_option (Pair Tilde) (parseVersion r)
          else if c = CHR ''='' then map_option (Pair Equal) (parseVersion r)
          else if c = CHR ''>'' then
            (case r of
               [] \<Rightarrow> None
             | d # r' \<Rightarrow> if d = CHR ''='' then map_option (Pair GreaterEq) (parseVersion r')
                          else map_option (Pair Greater) (parseVersion r))
          else if c = CHR ''<'' then
            (case r of
               [] \<Rightarrow> None
             | d # r' \<Rightarrow> if d = CHR ''='' then map_option (Pair LessEq) (parseVersion r')
                          else map_option (Pair Less) (parseVersion r))
          else map_option (Pair Equal) (parseVersion s))"

fun allSome :: "'a option list \<Rightarrow> 'a list option" where
  "allSome [] = Some []"
| "allSome (None # _) = None"
| "allSome (Some x # xs) = map_option ((#) x) (allSome xs)"

definition parseRange :: "string \<Rightarrow> (Operator \<times> SemVer) list option" where
  "parseRange r =
     allSome (map parseComparator (filter (\<lambda>w. w \<noteq> []) (splitOn (CHR '' '') r)))"

text \<open>
  The standard meaning of the operators: \<open>^\<close> allows changes that keep the leftmost
  non-zero part, \<open>~\<close> allows patch-level changes.
\<close>

fun satisfiesComparator :: "SemVer \<Rightarrow> Operator \<times> SemVer \<Rightarrow> bool" where
  "satisfiesComparator v (GreaterEq, b) = versionLessEq b v"
| "satisfiesComparator v (Greater, b) = versionLess b v"
| "satisfiesComparator v (LessEq, b) = versionLessEq v b"
| "satisfiesComparator v (Less, b) = versionLess v b"
| "satisfiesComparator v (Equal, b) = (v = b)"
| "satisfiesComparator v (Tilde, (a, b, c)) =
     (versionLessEq (a, b, c) v \<and> versionLess v (a, b + 1, 0))"
| "satisfiesComparator v (Caret, (a, b, c)) =
     (versionLessEq (a, b, c) v \<and>
      versionLess v (if a > 0 then (a + 1, 0, 0)
                     else if b > 0 then (0, b + 1, 0)
                     else (0, 0, c + 1)))"

text \<open>Modelled from the spec: \<open>semver.satisfies\<close>; an unreadable version or range satisfies nothing.\<close>

definition semver_satisfies :: "string \<Rightarrow> string \<Rightarrow> bool" where
  "semver_satisfies v rng =
     (case (parseVersion v, parseRange rng) of
        (Some sv, Some comparators) \<Rightarrow> list_all (satisfiesComparator sv) comparators
      | _ \<Rightarrow> False)"

text \<open>
  Modelled from the spec: \<open>semver.maxSatisfying\<close>, "the highest version satisfying the
  constraint". The list is scanned once and the running maximum is replaced only by a
  strictly higher version.
\<close>

fun maxSatisfyingLoop :: "string \<Rightarrow> string list \<Rightarrow> string option \<Rightarrow> string option" where
  "maxSatisfyingLoop rng [] best = best"
| "maxSatisfyingLoop rng (v # vs) best =
     (if semver_satisfies v rng \<and>
         (case best of
            None \<Rightarrow> True
          | Some m \<Rightarrow>
              (case (parseVersion m, parseVersion v) of
                 (Some sm, Some sv) \<Rightarrow> versionLess sm sv
               | _ \<Rightarrow> False))
      then maxSatisfyingLoop rng vs (Some v)
      else maxSatisfyingLoop rng vs best)"

definition semver_maxSatisfying :: "string list \<Rightarrow> string \<Rightarrow> string option" where
  "semver_maxSatisfying vs rng = maxSatisfyingLoop rng vs None"

text \<open>
  \<open>resolveVersion\<close>. Either argument may be \<open>null\<close> or \<open>undefined\<close>; \<open>!range\<close> also rejects
  the empty string.
\<close>

definition resolveVersion :: "string option \<Rightarrow> string list option \<Rightarrow> string option" where
  "resolveVersion rng availableVersions =
     (case (rng, availableVersions) of
        (Some r, Some available) \<Rightarrow>
          if r = [] \<or> available = [] then None
          else if semver_valid r then (if r \<in> set available then Some r else None)
          else
            (let validVersions = filter semver_valid available
             in semver_maxSatisfying validVersions r)
      | _ \<Rightarrow> None)"

section \<open>The analyser\<close>

record TransitiveResult =
  t_cveMetrics :: CVEMetrics
  transitivePackageCount :: nat
  directPackageCount :: nat
  totalPackagesInTree :: nat
  packageNames :: "string list"

record TransitiveDependencies =
  td_totalPackagesInTree :: nat
  directCount :: nat
  indirectCount :: nat

record AnalysisResult =
  packageName :: string
  r_version :: "string option"
  r_found :: bool
  score :: "CompositeScore option"
  cveMetrics :: "CVEMetrics option"
  packageMetrics :: "PackageMetrics option"
  transitiveDependencies :: "TransitiveDependencies option"
  error :: "string option"

record HighRisk =
  hr_name :: string
  hr_score :: int
  hr_risk :: RiskLevel

record ProjectSummary =
  averageScore :: int
  totalMaintenanceHours :: int
  s_totalCVEs :: nat
  totalCriticalCVEs :: nat
  riskDistribution :: "RiskLevel \<Rightarrow> nat"
  highestRiskPackages :: "HighRisk list"
  analysisDate :: string

text \<open>
  \<open>calculateCVEMetrics\<close> turns a finding list into frequency statistics with calendar
  dates, floating-point division and decimal rounding. None of the properties below
  depends on how it does that, so it is the parameter \<open>metricsOf\<close> of the functions that
  call it.
\<close>

definition getPackageVulnerabilityMetrics :: "World \<Rightarrow> (Finding list \<Rightarrow> CVEMetrics) \<Rightarrow> string \<Rightarrow> NetState \<Rightarrow> (Thrown + CVEMetrics) \<times> NetState" where
  "getPackageVulnerabilityMetrics w metricsOf name st =
     (let (data, st1) = queryVulnerabilities w name st
      in (case vulns_or_empty data of
            Inl thrown \<Rightarrow> Inl thrown
          | Inr vulns \<Rightarrow> Inr (metricsOf vulns),
          st1))"

text \<open>\<open>[...new Set(xs)]\<close>: the elements in order of first occurrence.\<close>

definition setAdd :: "'a \<Rightarrow> 'a list \<Rightarrow> 'a list" where
  "setAdd x s = (if x \<in> set s then s else s @ [x])"

definition uniqueList :: "'a list \<Rightarrow> 'a list" where
  "uniqueList xs = fold setAdd xs []"

text \<open>
  Step 1 of \<open>getTransitiveCVEMetrics\<close>: the published versions are those with a truthy
  \<open>versionKey?.version\<close>; without a range the newest entry's version is taken.
\<close>

definition resolveStep :: "PackageInfo option \<Rightarrow> string option \<Rightarrow> string option" where
  "resolveStep packageInfo versionRange =
     (case Option.bind packageInfo versions of
        None \<Rightarrow> None
      | Some vs \<Rightarrow>
          let availableVersions =
                List.map_filter
                  (\<lambda>v. case versionOf v of
                         None \<Rightarrow> None
                       | Some s \<Rightarrow> if s = [] then None else Some s) vs
          in if \<not> truthy versionRange then
               (case byPublishDateDesc vs of [] \<Rightarrow> None | newest # _ \<Rightarrow> versionOf newest)
             else resolveVersion versionRange (Some availableVersions))"

text \<open>
  The fallback loop, over the first \<open>Math.min(10, sortedVersions.length)\<close> entries: an
  entry without a version, or with the version already tried, is passed over without a
  request; the first graph that arrives ends the loop and its version becomes
  \<open>resolvedVersion\<close>.
\<close>

fun tryFallbackVersions :: "World \<Rightarrow> string \<Rightarrow> PackageVersion list \<Rightarrow> string \<Rightarrow> NetState \<Rightarrow> DependencyGraph option \<times> string \<times> NetState" where
  "tryFallbackVersions w name [] resolvedVersion st = (None, resolvedVersion, st)"
| "tryFallbackVersions w name (v # rest) resolvedVersion st =
     (case versionOf v of
        None \<Rightarrow> tryFallbackVersions w name rest resolvedVersion st
      | Some fallbackVersion \<Rightarrow>
          if fallbackVersion \<noteq> [] \<and> fallbackVersion \<noteq> resolvedVersion then
            (let (graph, st1) = getDependencyGraph w name fallbackVersion st
             in case graph of
                  Some g \<Rightarrow> (Some g, fallbackVersion, st1)
                | None \<Rightarrow> tryFallbackVersions w name rest resolvedVersion st1)
          else tryFallbackVersions w name rest resolvedVersion st)"

text \<open>
  Step 2 for a resolved version: the graph of that version, else the fallback search.
  The result carries the graph, the final \<open>resolvedVersion\<close> and the state.
\<close>

definition fetchGraph :: "World \<Rightarrow> string \<Rightarrow> PackageInfo option \<Rightarrow> string \<Rightarrow> NetState \<Rightarrow> DependencyGraph option \<times> string \<times> NetState" where
  "fetchGraph w name packageInfo resolvedVersion st =
     (let (graph, st1) = getDependencyGraph w name resolvedVersion st
      in case graph of
           Some g \<Rightarrow> (Some g, resolvedVersion, st1)
         | None \<Rightarrow>
             (case Option.bind packageInfo versions of
                None \<Rightarrow> (None, resolvedVersion, st1)
              | Some vs \<Rightarrow>
                  let sortedVersions = byPublishDateDesc vs
                  in tryFallbackVersions w name (take 10 sortedVersions) resolvedVersion st1))"

text \<open>
  \<open>getTransitiveCVEMetrics\<close>. The value is \<open>None\<close> when the batch lookup does not return,
  and what a lookup threw when one did. After the fallback search nothing reads
  \<open>resolvedVersion\<close> again: what the rest of the function takes from the search is the
  graph.
\<close>

definition getTransitiveCVEMetrics :: "World \<Rightarrow> (Finding list \<Rightarrow> CVEMetrics) \<Rightarrow> string \<Rightarrow> string option \<Rightarrow> int \<Rightarrow> bool \<Rightarrow> NetState \<Rightarrow> ((Thrown + TransitiveResult) \<times> NetState) option" where
  "getTransitiveCVEMetrics w metricsOf name versionRange concurrency shallow st =
     (if shallow then
        (let (directVulns, st1) = getPackageVulnerabilityMetrics w metricsOf name st
         in case directVulns of
              Inl thrown \<Rightarrow> Some (Inl thrown, st1)
            | Inr metrics \<Rightarrow>
                Some (Inr \<lparr>t_cveMetrics = metrics, transitivePackageCount = 0,
                           directPackageCount = 0, totalPackagesInTree = 1,
                           packageNames = [name]\<rparr>, st1))
      else
        (let (packageInfo, st1) = getPackageInfo w name st;
             resolvedVersion = resolveStep packageInfo versionRange;
             root = [\<lparr>tp_name = name, tp_version = resolvedVersion, tp_relation = ''SELF''\<rparr>];
             (treePackages, st2) =
               (case resolvedVersion of
                  None \<Rightarrow> (root, st1)
                | Some rv \<Rightarrow>
                    if rv = [] then (root, st1)
                    else
                      (let (graph, adopted, st') = fetchGraph w name packageInfo rv st1
                       in case graph of
                            Some g \<Rightarrow> (extractPackagesFromGraph (Some g), st')
                          | None \<Rightarrow> (root, st')));
             uniqueNames = uniqueList (map tp_name treePackages)
         in case queryVulnerabilitiesBatch w uniqueNames concurrency st2 of
              None \<Rightarrow> None
            | Some (Inl thrown, st3) \<Rightarrow> Some (Inl thrown, st3)
            | Some (Inr vulnsByPackage, st3) \<Rightarrow>
                let deduplicatedVulns = deduplicateVulnerabilities vulnsByPackage
                in Some (Inr \<lparr>t_cveMetrics = metricsOf deduplicatedVulns,
                          transitivePackageCount =
                            length (filter (\<lambda>p. tp_relation p = ''INDIRECT'') treePackages),
                          directPackageCount =
                            length (filter (\<lambda>p. tp_relation p = ''DIRECT'') treePackages),
                          totalPackagesInTree = length uniqueNames,
                          packageNames = uniqueNames\<rparr>, st3)))"

text \<open>
  \<open>getPackageMetrics\<close>. Without a version it reads \<open>sortedVersions[0].versionKey.version\<close>
  unguarded: a newest entry without \<open>versionKey\<close> throws.
\<close>

definition getPackageMetrics :: "World \<Rightarrow> int \<Rightarrow> string \<Rightarrow> string option \<Rightarrow> NetState \<Rightarrow> (Thrown + PackageMetrics) \<times> NetState" where
  "getPackageMetrics w now name version st =
     (let (packageInfo, st1) = getPackageInfo w name st
      in case packageInfo of
           None \<Rightarrow>
             (Inr \<lparr>found = False,
                   maintenance = Some (calculateMaintenanceMetrics now None),
                   complexity = Some (calculateComplexityMetrics None noOverrides)\<rparr>, st1)
         | Some info \<Rightarrow>
             let maintenanceMetrics = calculateMaintenanceMetrics now (Some info);
                 done = (\<lambda>(versionInfo, st').
                   (Inr \<lparr>found = True, maintenance = Some maintenanceMetrics,
                         complexity = Some (calculateComplexityMetrics versionInfo noOverrides)\<rparr>,
                    st'));
                 latest = (\<lambda>_::unit.
                   case versions info of
                     None \<Rightarrow> done (None, st1)
                   | Some vs \<Rightarrow>
                       (case byPublishDateDesc vs of
                          [] \<Rightarrow> done (None, st1)
                        | newest # _ \<Rightarrow>
                            (case versionKey newest of
                               None \<Rightarrow> (Inl TypeError, st1)
                             | Some k \<Rightarrow>
                                 done (getVersionInfo w name
                                         (case vk_version k of
                                            None \<Rightarrow> ''undefined'' | Some v \<Rightarrow> v) st1))))
             in case version of
                  None \<Rightarrow> latest ()
                | Some v \<Rightarrow> if v = [] then latest () else done (getVersionInfo w name v st1))"

text \<open>
  \<open>analyzePackage\<close>. Whatever is thrown inside is caught and gives a result without a
  score.
\<close>

definition analyzePackage :: "World \<Rightarrow> (Finding list \<Rightarrow> CVEMetrics) \<Rightarrow> int \<Rightarrow> string \<Rightarrow> string option \<Rightarrow> int \<Rightarrow> bool \<Rightarrow> NetState \<Rightarrow> (AnalysisResult \<times> NetState) option" where
  "analyzePackage w metricsOf now name version concurrency shallow st =
     (case getTransitiveCVEMetrics w metricsOf name version concurrency shallow st of
        None \<Rightarrow> None
      | Some (Inl thrown, st1) \<Rightarrow>
          Some (\<lparr>packageName = name, r_version = version, r_found = False,
                 score = None, cveMetrics = None, packageMetrics = None,
                 transitiveDependencies = None,
                 error = Some ''TypeError''\<rparr>, st1)
      | Some (Inr transitiveResult, st1) \<Rightarrow>
          (case getPackageMetrics w now name version st1 of
             (Inl thrown, st2) \<Rightarrow>
               Some (\<lparr>packageName = name, r_version = version, r_found = False,
                      score = None, cveMetrics = None, packageMetrics = None,
                      transitiveDependencies = None,
                      error = Some ''TypeError''\<rparr>, st2)
           | (Inr fetched, st2) \<Rightarrow>
               let metrics =
                     (case complexity fetched of
                        Some c \<Rightarrow>
                          if totalPackagesInTree transitiveResult > 0 then
                            fetched\<lparr>complexity :=
                              Some (c\<lparr>totalDependencies :=
                                         Some (totalPackagesInTree transitiveResult),
                                       directDependencies :=
                                         Some (directPackageCount transitiveResult)\<rparr>)\<rparr>
                          else fetched
                      | None \<Rightarrow> fetched);
                   composite = calculateCompositeScore (t_cveMetrics transitiveResult) metrics
               in Some (\<lparr>packageName = name, r_version = version, r_found = found metrics,
                         score = Some composite,
                         cveMetrics = Some (t_cveMetrics transitiveResult),
                         packageMetrics = Some metrics,
                         transitiveDependencies =
                           Some \<lparr>td_totalPackagesInTree = totalPackagesInTree transitiveResult,
                                 directCount = directPackageCount transitiveResult,
                                 indirectCount = transitivePackageCount transitiveResult\<rparr>,
                         error = None\<rparr>, st2)))"

section \<open>The project summary\<close>

text \<open>\<open>packages.filter((p) => p.score)\<close>, each kept entry paired with its score record.\<close>

definition validPackages :: "AnalysisResult list \<Rightarrow> (AnalysisResult \<times> CompositeScore) list" where
  "validPackages packages = List.map_filter (\<lambda>p. map_option (Pair p) (score p)) packages"

record Totals =
  riskCounts :: "RiskLevel \<Rightarrow> nat"
  sumHours :: int
  sumCVEs :: nat
  sumCritical :: nat

text \<open>The body of the loop over \<open>validPackages\<close>.\<close>

definition addPackage :: "AnalysisResult \<times> CompositeScore \<Rightarrow> Totals \<Rightarrow> Totals" where
  "addPackage ps t =
     (case ps of (pkg, sc) \<Rightarrow>
        \<lparr>riskCounts = (riskCounts t)(riskLevel sc := riskCounts t (riskLevel sc) + 1),
         sumHours = sumHours t + falsy_or (Some (estimatedAnnualMaintenanceHours sc)) 0,
         sumCVEs = sumCVEs t + falsy_or (Option.bind (cveMetrics pkg) totalCVEs) 0,
         sumCritical =
           sumCritical t +
           falsy_or (Option.bind (Option.bind (cveMetrics pkg) bySeverity) sev_CRITICAL) 0\<rparr>)"

definition calculateProjectSummary :: "string \<Rightarrow> AnalysisResult list \<Rightarrow> ProjectSummary option" where
  "calculateProjectSummary today packages =
     (let valid = validPackages packages
      in if length valid = 0 then None
         else
           let scores = map (\<lambda>(p, sc). totalScore sc) valid;
               average =
                 Math_round (of_int (foldl (\<lambda>sum s. sum + s) 0 scores) / of_nat (length scores));
               totals =
                 fold addPackage valid
                   \<lparr>riskCounts = (\<lambda>_. 0), sumHours = 0, sumCVEs = 0, sumCritical = 0\<rparr>;
               highestRisk =
                 map (\<lambda>(p, sc). \<lparr>hr_name = packageName p, hr_score = totalScore sc,
                                  hr_risk = riskLevel sc\<rparr>)
                   (take 5 (sort_key (\<lambda>(p, sc). totalScore sc) valid))
           in Some \<lparr>averageScore = average,
                    totalMaintenanceHours = sumHours totals,
                    s_totalCVEs = sumCVEs totals,
                    totalCriticalCVEs = sumCritical totals,
                    riskDistribution = riskCounts totals,
                    highestRiskPackages = highestRisk,
                    analysisDate = today\<rparr>)"

section \<open>Quantities of the specification\<close>

text \<open>
  The penalty bands and the complexity level as the specification lists them, each a
  function of the quantity it bands. They are compared below with the assignments of the
  code.
\<close>

definition avgBand :: "rat \<Rightarrow> int" where
  "avgBand a =
     (if a > 10 then 70 else if a > 5 then 50 else if a > 2 then 30
      else if a > 1 then 20 else if a > 1 / 2 then 10 else 0)"

definition criticalBand :: "rat \<Rightarrow> int" where
  "criticalBand c = (if c > 2 then 20 else if c > 1 then 15 else if c > 1 / 2 then 10 else 0)"

definition highBand :: "rat \<Rightarrow> int" where
  "highBand h = (if h > 3 then 15 else if h > 1 then 10 else 0)"

definition totalDepsBand :: "nat \<Rightarrow> int" where
  "totalDepsBand t =
     (if t > 500 then 50 else if t > 200 then 35 else if t > 100 then 20
      else if t > 50 then 10 else 0)"

definition directDepsBand :: "nat \<Rightarrow> int" where
  "directDepsBand d =
     (if d > 50 then 20 else if d > 30 then 15 else if d > 15 then 10
      else if d > 5 then 5 else 0)"

definition levelOf :: "nat \<Rightarrow> string" where
  "levelOf t =
     (if t > 500 then ''very high'' else if t > 200 then ''high''
      else if t > 50 then ''moderate'' else ''low'')"

text \<open>
  The total as the specification writes it, a function of the five sub-scores: the
  rounded weighted sum, in the arithmetic of the code.
\<close>

definition weightedTotal :: "int \<Rightarrow> int \<Rightarrow> int \<Rightarrow> int \<Rightarrow> int \<Rightarrow> int" where
  "weightedTotal cve maint compl lag community =
     Math_round
       (js_add
         (js_add
           (js_add
             (js_add (js_mul (of_int cve) W_historicalCVEs)
                     (js_mul (of_int maint) W_maintenance))
             (js_mul (of_int compl) W_complexity))
           (js_mul (of_int lag) W_technicalLag))
         (js_mul (of_int community) W_communitySignals))"

text \<open>What the summary reads from a scored entry of the package list.\<close>

definition hoursOf :: "AnalysisResult \<times> CompositeScore \<Rightarrow> int" where
  "hoursOf ps = estimatedAnnualMaintenanceHours (snd ps)"

definition cvesOf :: "AnalysisResult \<times> CompositeScore \<Rightarrow> nat" where
  "cvesOf ps = (case Option.bind (cveMetrics (fst ps)) totalCVEs of None \<Rightarrow> 0 | Some n \<Rightarrow> n)"

definition criticalOf :: "AnalysisResult \<times> CompositeScore \<Rightarrow> nat" where
  "criticalOf ps =
     (case Option.bind (Option.bind (cveMetrics (fst ps)) bySeverity) sev_CRITICAL of
        None \<Rightarrow> 0 | Some n \<Rightarrow> n)"

definition scoreOf :: "AnalysisResult \<times> CompositeScore \<Rightarrow> int" where
  "scoreOf ps = totalScore (snd ps)"

definition entryOf :: "AnalysisResult \<times> CompositeScore \<Rightarrow> HighRisk" where
  "entryOf ps = \<lparr>hr_name = packageName (fst ps), hr_score = totalScore (snd ps),
                  hr_risk = riskLevel (snd ps)\<rparr>"

text \<open>
  The finding list one lookup yields for a name whose reply is not \<open>null\<close> (what
  \<open>queryVulnerabilities\<close> returns, defaulted by \<open>data.vulns || []\<close>), the names whose
  reply is \<open>null\<close>, and the requested names that are not in the cache.
\<close>

definition queried :: "World \<Rightarrow> string \<Rightarrow> Finding list" where
  "queried w n = (case osvOf w n of Ok (JsonValue (Some vs)) \<Rightarrow> vs | _ \<Rightarrow> [])"

definition nullReply :: "World \<Rightarrow> string \<Rightarrow> bool" where
  "nullReply w n = (osvOf w n = Ok JsonNull)"

definition uncachedIn :: "NetState \<Rightarrow> string list \<Rightarrow> string list" where
  "uncachedIn st names = filter (\<lambda>n. vulnCache st n = None) names"


text \<open>\<open>precedes u v\<close>: both strings are versions and \<open>u\<close> is not higher than \<open>v\<close>.\<close>

definition precedes :: "string \<Rightarrow> string \<Rightarrow> bool" where
  "precedes u v =
     (case (parseVersion u, parseVersion v) of
        (Some a, Some b) \<Rightarrow> versionLessEq a b
      | _ \<Rightarrow> False)"

text \<open>
  The versions the fallback loop asks the graph endpoint for, as long as none succeeds:
  those of the first ten entries of the sorted list, in order, that are present, not empty
  and not the version already tried.
\<close>

definition fallbackCandidates :: "PackageVersion list \<Rightarrow> string \<Rightarrow> string list" where
  "fallbackCandidates sortedVersions resolvedVersion =
     List.map_filter
       (\<lambda>v. case versionOf v of
              None \<Rightarrow> None
            | Some fv \<Rightarrow> if fv \<noteq> [] \<and> fv \<noteq> resolvedVersion then Some fv else None)
       (take 10 sortedVersions)"

text \<open>
  The tree that is analysed when no graph was found: the root package alone, at the
  version first resolved. The state after the metadata request, the graph request for
  that version and the graph requests of the fallback search. The rest of
  \<open>getTransitiveCVEMetrics\<close> on a tree: the batch lookup of its distinct names, the
  deduplication and the metrics.
\<close>

definition rootOnly :: "string \<Rightarrow> string \<Rightarrow> TreePackage list" where
  "rootOnly name rv = [\<lparr>tp_name = name, tp_version = Some rv, tp_relation = ''SELF''\<rparr>]"

definition afterGraphRequests :: "NetState \<Rightarrow> string \<Rightarrow> string \<Rightarrow> string list \<Rightarrow> NetState" where
  "afterGraphRequests st name rv tried =
     st\<lparr>requests := requests st @ PackageQuery name # GraphQuery name rv #
                       map (GraphQuery name) tried\<rparr>"

definition analysisOf :: "World \<Rightarrow> (Finding list \<Rightarrow> CVEMetrics) \<Rightarrow> TreePackage list \<Rightarrow> int \<Rightarrow> NetState \<Rightarrow> ((Thrown + TransitiveResult) \<times> NetState) option" where
  "analysisOf w metricsOf tree concurrency st =
     (case queryVulnerabilitiesBatch w (uniqueList (map tp_name tree)) concurrency st of
        None \<Rightarrow> None
      | Some (Inl thrown, st') \<Rightarrow> Some (Inl thrown, st')
      | Some (Inr vulnsByPackage, st') \<Rightarrow>
          Some (Inr \<lparr>t_cveMetrics = metricsOf (deduplicateVulnerabilities vulnsByPackage),
                     transitivePackageCount =
                       length (filter (\<lambda>p. tp_relation p = ''INDIRECT'') tree),
                     directPackageCount =
                       length (filter (\<lambda>p. tp_relation p = ''DIRECT'') tree),
                     totalPackagesInTree = length (uniqueList (map tp_name tree)),
                     packageNames = uniqueList (map tp_name tree)\<rparr>, st'))"

section \<open>Closed forms used in the proofs\<close>

text \<open>
  One pass over a list of names: every name queried and its result stored in \<open>results\<close>
  and in the cache. The batches of a positive step add up to one such pass over the
  uncached names, after the cached names have been served.
\<close>

definition processNames :: "World \<Rightarrow> string list \<Rightarrow> VulnMap \<times> NetState \<Rightarrow> VulnMap \<times> NetState" where
  "processNames w names acc =
     (fold (\<lambda>n. AList.update n (queried w n)) names (fst acc),
      (snd acc)\<lparr>requests := requests (snd acc) @ map OsvQuery names,
                vulnCache := fold (\<lambda>n c. c(n \<mapsto> queried w n)) names (vulnCache (snd acc))\<rparr>)"

definition cachedResults :: "NetState \<Rightarrow> string list \<Rightarrow> VulnMap" where
  "cachedResults st names =
     fold (\<lambda>n r. case vulnCache st n of Some v \<Rightarrow> AList.update n v r | None \<Rightarrow> r) names []"


section \<open>Example inputs\<close>

text \<open>Metrics of a package without findings, and of one with a steady stream of them.\<close>

definition noFindings :: CVEMetrics where
  "noFindings =
     \<lparr>totalCVEs = Some 0, avgCVEsPerYear = Some 0, criticalCVEsPerYear = Some 0,
      highCVEsPerYear = Some 0,
      bySeverity = Some \<lparr>sev_CRITICAL = Some 0, sev_HIGH = Some 0, sev_MODERATE = Some 0,
        sev_LOW = Some 0, sev_UNKNOWN = Some 0\<rparr>\<rparr>"

definition manyFindings :: CVEMetrics where
  "manyFindings =
     \<lparr>totalCVEs = Some 26, avgCVEsPerYear = Some (13 / 2), criticalCVEsPerYear = Some (6 / 5),
      highCVEsPerYear = Some (2 / 5),
      bySeverity = Some \<lparr>sev_CRITICAL = Some 5, sev_HIGH = Some 2, sev_MODERATE = Some 19,
        sev_LOW = Some 0, sev_UNKNOWN = Some 0\<rparr>\<rparr>"

text \<open>What \<open>getPackageMetrics\<close> returns for a package the registry does not know.\<close>

definition unknownPackage :: PackageMetrics where
  "unknownPackage =
     \<lparr>found = False,
      maintenance = Some (calculateMaintenanceMetrics 0 None),
      complexity = Some (calculateComplexityMetrics None noOverrides)\<rparr>"

text \<open>Metrics of a healthy package, and a record that carries neither sub-record.\<close>

definition healthyPackage :: PackageMetrics where
  "healthyPackage =
     \<lparr>found = True,
      maintenance = Some \<lparr>m_score = Some 85, lastReleaseDate = None,
        daysSinceLastRelease = Some 30, releaseFrequency = Some ''low'',
        releasesPerYear = Some 1, totalVersions = Some 7, activelyMaintained = Some True\<rparr>,
      complexity = Some \<lparr>c_score = Some 100, directDependencies = Some 3,
        totalDependencies = Some 45, complexityLevel = Some ''low''\<rparr>\<rparr>"

definition bareMetrics :: PackageMetrics where
  "bareMetrics = \<lparr>found = True, maintenance = None, complexity = None\<rparr>"

text \<open>Entries of a package list: analysed ones, and one whose analysis threw.\<close>

definition scored :: "int \<Rightarrow> RiskLevel \<Rightarrow> int \<Rightarrow> CompositeScore" where
  "scored s r h =
     \<lparr>totalScore = s, riskLevel = r, estimatedAnnualMaintenanceHours = h,
      breakdown = \<lparr>historicalCVEs = factor 0 0, maintenanceHealth = factor 0 0,
        dependencyComplexity = factor 0 0, technicalLag = factor 0 0,
        communitySignals = factor 0 0\<rparr>\<rparr>"

definition counted :: "nat \<Rightarrow> nat \<Rightarrow> CVEMetrics" where
  "counted n c =
     \<lparr>totalCVEs = Some n, avgCVEsPerYear = None, criticalCVEsPerYear = None,
      highCVEsPerYear = None,
      bySeverity = Some \<lparr>sev_CRITICAL = Some c, sev_HIGH = None, sev_MODERATE = None,
        sev_LOW = None, sev_UNKNOWN = None\<rparr>\<rparr>"

definition analysed :: "string \<Rightarrow> CompositeScore \<Rightarrow> CVEMetrics \<Rightarrow> AnalysisResult" where
  "analysed n sc cm =
     \<lparr>packageName = n, r_version = None, r_found = True, score = Some sc,
      cveMetrics = Some cm, packageMetrics = None, transitiveDependencies = None,
      error = None\<rparr>"

definition errored :: "string \<Rightarrow> AnalysisResult" where
  "errored n =
     \<lparr>packageName = n, r_version = None, r_found = False, score = None,
      cveMetrics = None, packageMetrics = None, transitiveDependencies = None,
      error = Some ''TypeError''\<rparr>"

definition pkg80 :: AnalysisResult where "pkg80 = analysed ''a'' (scored 80 LOW 5) (counted 2 0)"

definition pkg60 :: AnalysisResult where "pkg60 = analysed ''b'' (scored 60 MEDIUM 10) (counted 5 1)"

text \<open>
  Two copies of one finding, reported under two packages, and a finding without
  identifier; a vulnerability source that knows \<open>pkg-b\<close>, fails for \<open>pkg-c\<close> and has
  nothing on other names; the same source answering \<open>null\<close> for \<open>pkg-n\<close>; a cache that
  already holds \<open>pkg-a\<close>.
\<close>

definition cve1FromA :: Finding where
  "cve1FromA = \<lparr>vuln_id = Some ''CVE-1'', published = None, source = ''pkg-a''\<rparr>"

definition cve1FromB :: Finding where
  "cve1FromB = \<lparr>vuln_id = Some ''CVE-1'', published = None, source = ''pkg-b''\<rparr>"


definition exampleWorld :: World where
  "exampleWorld =
     \<lparr>osvOf = (\<lambda>n. if n = ''pkg-b'' then Ok (JsonValue (Some [cve1FromB]))
                    else if n = ''pkg-c'' then Failed else Ok (JsonValue None)),
      packageInfoOf = (\<lambda>_. None),
      versionInfoOf = (\<lambda>_ _. None),
      graphOf = (\<lambda>_ _. None)\<rparr>"

definition nullWorld :: World where
  "nullWorld =
     exampleWorld\<lparr>osvOf := (\<lambda>n. if n = ''pkg-n'' then Ok JsonNull else osvOf exampleWorld n)\<rparr>"

definition seededState :: NetState where
  "seededState = \<lparr>vulnCache = [''pkg-a'' \<mapsto> [cve1FromA]], requests = []\<rparr>"




text \<open>The published versions of the resolution examples.\<close>

definition published9 :: "string list" where
  "published9 = [''1.0.0'', ''1.2.0'', ''1.2.5'', ''2.0.0'', ''2.1.0'', ''3.0.0'', ''4.17.21'',
                 ''4.18.0'', ''4.18.2'']"

text \<open>
  A package \<open>lib\<close> with three releases, of which only the oldest has a dependency graph,
  and a state with an empty cache and no request sent.
\<close>

definition release :: "string \<Rightarrow> int \<Rightarrow> PackageVersion" where
  "release v t = \<lparr>versionKey = Some \<lparr>vk_name = ''lib'', vk_version = Some v\<rparr>, publishedAt = Some t\<rparr>"

definition libVersions :: "PackageVersion list" where
  "libVersions = [release ''1.0.0'' 1000, release ''2.0.0'' 2000, release ''3.0.0'' 3000]"

definition libInfo :: PackageInfo where
  "libInfo = \<lparr>versions = Some libVersions\<rparr>"

definition libGraph :: DependencyGraph where
  "libGraph =
     \<lparr>nodes = Some
        [\<lparr>n_versionKey = Some \<lparr>vk_name = ''lib'', vk_version = Some ''1.0.0''\<rparr>,
          n_relation = Some ''SELF''\<rparr>,
         \<lparr>n_versionKey = Some \<lparr>vk_name = ''dep'', vk_version = Some ''0.1.0''\<rparr>,
          n_relation = Some ''DIRECT''\<rparr>]\<rparr>"

definition fallbackWorld :: World where
  "fallbackWorld =
     \<lparr>osvOf = (\<lambda>_. Ok (JsonValue None)),
      packageInfoOf = (\<lambda>n. if n = ''lib'' then Some libInfo else None),
      versionInfoOf = (\<lambda>_ _. None),
      graphOf = (\<lambda>n v. if n = ''lib'' \<and> v = ''1.0.0'' then Some libGraph else None)\<rparr>"

definition freshState :: NetState where
  "freshState = \<lparr>vulnCache = Map.empty, requests = []\<rparr>"

text \<open>The same registry when no release of \<open>lib\<close> has a dependency graph.\<close>

definition graphlessWorld :: World where
  "graphlessWorld = fallbackWorld\<lparr>graphOf := (\<lambda>_ _. None)\<rparr>"

text \<open>A registry whose newest release lacks its version key.\<close>

definition brokenWorld :: World where
  "brokenWorld =
     \<lparr>osvOf = (\<lambda>_. Ok (JsonValue None)),
      packageInfoOf =
        (\<lambda>_. Some \<lparr>versions = Some [\<lparr>versionKey = None, publishedAt = Some 1000\<rparr>]\<rparr>),
      versionInfoOf = (\<lambda>_ _. None),
      graphOf = (\<lambda>_ _. None)\<rparr>"
section \<open>Arithmetic helpers\<close>

lemma floor_rat_numeral [simp]:
  "\<lfloor>numeral a / numeral b :: rat\<rfloor> = numeral a div numeral b"
  by (metis floor_divide_of_int_eq of_int_numeral)

lemma floor_rat_neg_numeral [simp]:
  "\<lfloor>- (numeral a / numeral b) :: rat\<rfloor> = - numeral a div numeral b"
  by (metis divide_minus_left floor_divide_of_int_eq of_int_neg_numeral of_int_numeral)

text \<open>
  Rounding to a double is monotone on the non-negative numbers: the exponent found does
  not decrease with the argument, and within one exponent the significand is rounded
  monotonically.
\<close>

lemma pow2_powi: "pow2 e = 2 powi e"
  by (simp add: pow2_def power_int_def field_simps)

lemma pow2_pos: "0 < pow2 e"
  by (simp add: pow2_def)

lemma pow2_add: "pow2 (a + b) = pow2 a * pow2 b"
  by (simp add: pow2_powi power_int_add)

lemma pow2_mono: "a \<le> b \<Longrightarrow> pow2 a \<le> pow2 b"
  by (simp add: pow2_powi power_int_increasing)

lemma pow2_0: "pow2 0 = 1"
  by (simp add: pow2_def)

lemma pow2_1: "pow2 1 = 2"
  by (simp add: pow2_def)

lemma pow2_succ: "pow2 (e + 1) = 2 * pow2 e"
  by (simp add: pow2_add pow2_1)

lemma expUp_spec:
  "0 < m \<Longrightarrow> - 1074 \<le> e \<Longrightarrow> m < 2 ^ 53 \<Longrightarrow>
     - 1074 \<le> expUp m e \<and> expUp m e \<le> e \<and>
     m * pow2 (e - expUp m e) < 2 ^ 53 \<and>
     (2 ^ 52 \<le> m * pow2 (e - expUp m e) \<or> expUp m e = - 1074)"
proof (induction m e rule: expUp.induct)
  case (1 m e)
  show ?case
  proof (cases "m < 2 ^ 52 \<and> - 1074 < e")
    case False
    then have stop: "expUp m e = e" by (subst expUp.simps) auto
    show ?thesis unfolding stop using False "1.prems" by (auto simp: pow2_0)
  next
    case True
    then have step: "expUp m e = expUp (2 * m) (e - 1)" by (subst expUp.simps) auto
    have pre: "0 < 2 * m" "- 1074 \<le> e - 1" "2 * m < 2 ^ 53"
      using True "1.prems" by simp_all
    have scale: "m * pow2 (e - x) = 2 * m * pow2 (e - 1 - x)" for x
    proof -
      have "pow2 (e - x) = pow2 ((e - 1 - x) + 1)" by simp
      then show ?thesis by (simp only: pow2_succ)
    qed
    from "1.IH" [OF True pre] show ?thesis
      unfolding step scale by auto
  qed
qed

lemma expDown_spec:
  "2 ^ 52 \<le> m \<Longrightarrow>
     e \<le> expDown m e \<and> 2 ^ 52 \<le> m / pow2 (expDown m e - e) \<and>
     m / pow2 (expDown m e - e) < 2 ^ 53"
proof (induction m e rule: expDown.induct)
  case (1 m e)
  show ?case
  proof (cases "2 ^ 53 \<le> m")
    case False
    then have stop: "expDown m e = e" by (subst expDown.simps) auto
    show ?thesis unfolding stop using False "1.prems" by (simp add: pow2_0)
  next
    case True
    then have step: "expDown m e = expDown (m / 2) (e + 1)" by (subst expDown.simps) auto
    have pre: "2 ^ 52 \<le> m / 2" using True by simp
    have scale: "m / pow2 (x - e) = m / 2 / pow2 (x - (e + 1))" for x
    proof -
      have "pow2 (x - e) = pow2 ((x - (e + 1)) + 1)" by simp
      then show ?thesis by (simp only: pow2_succ)
    qed
    from "1.IH" [OF True pre] show ?thesis
      unfolding step scale by auto
  qed
qed

lemma exponentOf_spec:
  assumes "0 < x"
  shows "- 1074 \<le> exponentOf x \<and> x / pow2 (exponentOf x) < 2 ^ 53 \<and>
         (2 ^ 52 \<le> x / pow2 (exponentOf x) \<or> exponentOf x = - 1074)"
proof (cases "x < 2 ^ 53")
  case True
  have inv: "x * pow2 (0 - e) = x / pow2 e" for e
  proof -
    have "pow2 (0 - e) * pow2 e = 1" by (simp add: pow2_add [symmetric] pow2_0)
    then show ?thesis using pow2_pos [of e] by (simp add: field_simps)
  qed
  from expUp_spec [OF assms _ True, of 0] show ?thesis
    unfolding exponentOf_def inv using True by simp
next
  case False
  then have "2 ^ 52 \<le> x" by simp
  from expDown_spec [OF this, of 0] show ?thesis
    unfolding exponentOf_def using False by simp
qed

lemma roundEven_cases: "roundEven q = \<lfloor>q\<rfloor> \<or> roundEven q = \<lfloor>q\<rfloor> + 1"
  by (simp add: roundEven_def Let_def)

lemma roundEven_of_int: "roundEven (of_int n) = n"
  by (simp add: roundEven_def Let_def)

lemma roundEven_mono:
  assumes "a \<le> b"
  shows "roundEven a \<le> roundEven b"
proof (cases "\<lfloor>a\<rfloor> < \<lfloor>b\<rfloor>")
  case True
  then show ?thesis using roundEven_cases [of a] roundEven_cases [of b] by linarith
next
  case False
  then have same: "\<lfloor>a\<rfloor> = \<lfloor>b\<rfloor>" using floor_mono [OF assms] by simp
  show ?thesis
    using assms by (auto simp: roundEven_def Let_def same)
qed

lemma roundEven_ge: "of_int k \<le> q \<Longrightarrow> k \<le> roundEven q"
  using roundEven_mono [of "of_int k" q] by (simp add: roundEven_of_int)

lemma roundEven_le: "q \<le> of_int k \<Longrightarrow> roundEven q \<le> k"
  using roundEven_mono [of q "of_int k"] by (simp add: roundEven_of_int)

lemma toDouble_pos:
  "0 < x \<Longrightarrow> toDouble x = of_int (roundEven (x / pow2 (exponentOf x))) * pow2 (exponentOf x)"
  by (simp add: toDouble_def Let_def)

lemma toDouble_mono_pos:
  assumes x: "0 < x" and xy: "x \<le> y"
  shows "toDouble x \<le> toDouble y"
proof -
  have y: "0 < y" using x xy by simp
  let ?ex = "exponentOf x" and ?ey = "exponentOf y"
  let ?sx = "x / pow2 ?ex" and ?sy = "y / pow2 ?ey"
  note sx = exponentOf_spec [OF x] and sy = exponentOf_spec [OF y]
  have le: "?ex \<le> ?ey"
  proof (rule ccontr)
    assume "\<not> ?ex \<le> ?ey"
    then have gt: "?ey + 1 \<le> ?ex" by simp
    then have "?ex \<noteq> - 1074" using sy by simp
    then have "2 ^ 52 \<le> ?sx" using sx by simp
    then have "2 ^ 52 * pow2 ?ex \<le> x" using pow2_pos [of ?ex] by (simp add: field_simps)
    moreover have "(2 ^ 52 :: rat) * pow2 (?ey + 1) \<le> 2 ^ 52 * pow2 ?ex"
      using pow2_mono [OF gt] by (simp add: mult_left_mono)
    ultimately have "2 ^ 52 * (2 * pow2 ?ey) \<le> x"
      unfolding pow2_succ by linarith
    then have "2 ^ 53 * pow2 ?ey \<le> y" using xy by simp
    then have "2 ^ 53 \<le> ?sy" using pow2_pos [of ?ey] by (simp add: field_simps)
    with sy show False by simp
  qed
  show ?thesis
  proof (cases "?ex = ?ey")
    case True
    have "?sx \<le> y / pow2 ?ex" using xy pow2_pos [of ?ex] by (simp add: divide_right_mono)
    then have "roundEven ?sx \<le> roundEven (y / pow2 ?ex)" by (rule roundEven_mono)
    then have "of_int (roundEven ?sx) * pow2 ?ex \<le> of_int (roundEven (y / pow2 ?ex)) * pow2 ?ex"
      using pow2_pos [of ?ex] by (simp add: mult_right_mono)
    then show ?thesis unfolding toDouble_pos [OF x] toDouble_pos [OF y] True [symmetric] .
  next
    case False
    with le have lt: "?ex + 1 \<le> ?ey" by simp
    have "?sx \<le> of_int (2 ^ 53)" using sx by simp
    then have "roundEven ?sx \<le> 2 ^ 53" by (rule roundEven_le)
    then have "(of_int (roundEven ?sx) :: rat) \<le> 2 ^ 53"
      by (metis of_int_le_iff of_int_numeral of_int_power)
    then have a: "of_int (roundEven ?sx) * pow2 ?ex \<le> 2 ^ 53 * pow2 ?ex"
      using pow2_pos [of ?ex] by (simp add: mult_right_mono)
    have b: "(2 ^ 53 :: rat) * pow2 ?ex = 2 ^ 52 * pow2 (?ex + 1)"
      by (simp add: pow2_succ)
    have c: "(2 ^ 52 :: rat) * pow2 (?ex + 1) \<le> 2 ^ 52 * pow2 ?ey"
      using pow2_mono [OF lt] by (simp add: mult_left_mono)
    have "?ey \<noteq> - 1074" using lt sx by simp
    then have "of_int (2 ^ 52) \<le> ?sy" using sy by simp
    then have "2 ^ 52 \<le> roundEven ?sy" by (rule roundEven_ge)
    then have "(2 ^ 52 :: rat) \<le> of_int (roundEven ?sy)"
      by (metis of_int_le_iff of_int_numeral of_int_power)
    then have d: "2 ^ 52 * pow2 ?ey \<le> of_int (roundEven ?sy) * pow2 ?ey"
      using pow2_pos [of ?ey] by (simp add: mult_right_mono)
    show ?thesis
      unfolding toDouble_pos [OF x] toDouble_pos [OF y] using a b c d by linarith
  qed
qed

lemma toDouble_nonneg: "0 \<le> x \<Longrightarrow> 0 \<le> toDouble x"
proof (cases "x = 0")
  case True
  then show ?thesis by (simp add: toDouble_def)
next
  case False
  assume "0 \<le> x"
  with False have x: "0 < x" by simp
  have "0 \<le> x / pow2 (exponentOf x)" using x pow2_pos [of "exponentOf x"] by simp
  then have "of_int 0 \<le> x / pow2 (exponentOf x)" by simp
  then have "0 \<le> roundEven (x / pow2 (exponentOf x))" by (rule roundEven_ge)
  then show ?thesis
    unfolding toDouble_pos [OF x] using pow2_pos [of "exponentOf x"] by simp
qed

lemma toDouble_mono: "0 \<le> x \<Longrightarrow> x \<le> y \<Longrightarrow> toDouble x \<le> toDouble y"
proof (cases "x = 0")
  case True
  assume "x \<le> y"
  with True have "0 \<le> y" by simp
  then show ?thesis using True toDouble_nonneg [of y] by (simp add: toDouble_def)
next
  case False
  assume "0 \<le> x" "x \<le> y"
  with False show ?thesis by (intro toDouble_mono_pos) simp_all
qed


lemmas double_eval =
  toDouble_def exponentOf_def expUp.simps expDown.simps pow2_def roundEven_def Let_def
  js_add_def js_mul_def

text \<open>The weights as doubles: 0.5 is one, 0.1 and 0.15 are not.\<close>

lemma weights:
  "W_historicalCVEs = 1 / 2"
  "W_maintenance = 3602879701896397 / 36028797018963968"
  "W_complexity = 5404319552844595 / 36028797018963968"
  "W_technicalLag = 5404319552844595 / 36028797018963968"
  "W_communitySignals = 3602879701896397 / 36028797018963968"
  by (simp_all add: W_historicalCVEs_def W_maintenance_def W_complexity_def
        W_technicalLag_def W_communitySignals_def double_eval)

lemma clamp100_range: "0 \<le> clamp100 s \<and> clamp100 s \<le> 100"
  by (simp add: clamp100_def)

section \<open>The historical-CVE sub-score\<close>

lemma avg_step:
  "(if a > 10 then s - 70 else if a > 5 then s - 50 else if a > 2 then s - 30
    else if a > 1 then s - 20 else if a > 1 / 2 then s - 10 else s) = s - avgBand a"
  by (simp add: avgBand_def)

lemma critical_step:
  "(if c > 2 then s - 20 else if c > 1 then s - 15 else if c > 1 / 2 then s - 10 else s)
     = s - criticalBand c"
  by (simp add: criticalBand_def)

lemma high_step:
  "(if h > 3 then s - 15 else if h > 1 then s - 10 else s) = s - highBand h"
  by (simp add: highBand_def)

lemma calculateCVEScore_range: "0 \<le> calculateCVEScore cm \<and> calculateCVEScore cm \<le> 100"
  unfolding calculateCVEScore_def Let_def
  by (simp add: clamp100_range split: option.split)

lemma calculateCVEScore_noFindings: "calculateCVEScore (Some noFindings) = 100"
  by (simp add: calculateCVEScore_def noFindings_def)

text \<open>
  C7. \<open>calculateCVEScore\<close> is exactly 100 when the total is zero; otherwise it is 100 less
  the band of \<open>avgCVEsPerYear\<close>, less the band of \<open>criticalCVEsPerYear\<close>, less the band of
  \<open>highCVEsPerYear\<close>, clamped to the interval from 0 to 100. A rate that is missing counts
  as 0.
\<close>

theorem calculateCVEScore_bands:
  "calculateCVEScore (Some m) =
     (if totalCVEs m = Some 0 then 100
      else max 0 (min 100
             (100 - avgBand (falsy_or (avgCVEsPerYear m) 0)
                  - criticalBand (falsy_or (criticalCVEsPerYear m) 0)
                  - highBand (falsy_or (highCVEsPerYear m) 0))))"
  unfolding calculateCVEScore_def Let_def avg_step critical_step high_step clamp100_def
  by simp

text \<open>At 6.5 findings, 1.2 critical and 0.4 high per year the score is 100 - 50 - 15 - 0.\<close>

theorem calculateCVEScore_bands_witness:
  "calculateCVEScore (Some manyFindings) = 35 \<and> calculateCVEScore (Some noFindings) = 100"
  using calculateCVEScore_bands [of manyFindings] calculateCVEScore_bands [of noFindings]
  by (simp add: manyFindings_def noFindings_def falsy_or_def avgBand_def criticalBand_def
        highBand_def)

section \<open>The composite score\<close>

lemma lag_noFindings_null:
  "daysSinceLastRelease mm = None \<Longrightarrow> calculateTechnicalLagScore noFindings mm = 100"
  by (simp add: calculateTechnicalLagScore_def noFindings_def recentCVEs_def falsy_or_def
        clamp100_def)

lemma maintenance_unknown:
  "calculateMaintenanceMetrics now None =
     \<lparr>m_score = Some 0, lastReleaseDate = None, daysSinceLastRelease = None,
      releaseFrequency = Some ''unknown'', releasesPerYear = None,
      totalVersions = Some 0, activelyMaintained = Some False\<rparr>"
  by (simp add: calculateMaintenanceMetrics_def)

lemma complexity_unknown:
  "calculateComplexityMetrics None noOverrides =
     \<lparr>c_score = Some 100, directDependencies = Some 0, totalDependencies = Some 0,
      complexityLevel = Some ''low''\<rparr>"
  by (simp add: calculateComplexityMetrics_def noOverrides_def falsy_or_def)

lemma totalScore_unfold:
  "totalScore (calculateCompositeScore cm pm) =
     weightedTotal
       (calculateCVEScore (Some cm))
       (falsy_or (Option.bind (maintenance pm) m_score) 50)
       (falsy_or (Option.bind (complexity pm) c_score) 50)
       (calculateTechnicalLagScore cm
          (case maintenance pm of None \<Rightarrow> emptyMaintenance | Some m \<Rightarrow> m))
       50"
  by (simp add: calculateCompositeScore_def weightedTotal_def Let_def)

text \<open>
  Where both score fields are present and not zero, the total is the weighted sum over
  the score fields, as the specification has it.
\<close>

lemma calculateCompositeScore_nonzero_scores:
  assumes "Option.bind (maintenance pm) m_score = Some ms" "ms \<noteq> 0"
      and "Option.bind (complexity pm) c_score = Some cs" "cs \<noteq> 0"
  shows "totalScore (calculateCompositeScore cm pm) =
           weightedTotal (calculateCVEScore (Some cm)) ms cs
             (calculateTechnicalLagScore cm
                (case maintenance pm of None \<Rightarrow> emptyMaintenance | Some m \<Rightarrow> m))
             50"
  unfolding totalScore_unfold using assms by (simp add: falsy_or_def)

lemma weightedTotal_examples:
  "weightedTotal 100 50 100 100 50 = 90"
  "weightedTotal 100 0 100 100 50 = 85"
  by (simp_all add: weightedTotal_def weights double_eval Math_round_def)

text \<open>
  The rounding of the sums shows where the exact value is a half: the sub-scores 0, 4, 109
  and 25 give exactly 25.5, and the doubles add up to just below it; 1.97 findings and
  0.99 critical findings per year with three direct dependencies give exactly 10.5 hours,
  and the doubles add up to just below it.
\<close>

lemma weightedTotal_below_half: "weightedTotal 0 4 109 25 50 = 25"
  by (simp add: weightedTotal_def weights double_eval Math_round_def)

lemma estimateMaintenanceHours_below_half:
  "estimateMaintenanceHours
     \<lparr>totalCVEs = Some 8, avgCVEsPerYear = Some (toDouble (197 / 100)),
      criticalCVEsPerYear = Some (toDouble (99 / 100)), highCVEsPerYear = Some 0,
      bySeverity = None\<rparr>
     \<lparr>found = True, maintenance = None,
      complexity = Some \<lparr>c_score = Some 100, directDependencies = Some 3,
        totalDependencies = Some 45, complexityLevel = Some ''low''\<rparr>\<rparr> = 10"
proof -
  have rates: "toDouble (197 / 100) = 8872091265919877 / 4503599627370496"
    "toDouble (99 / 100) = 4458563631096791 / 4503599627370496"
    by (simp_all add: double_eval)
  show ?thesis
    unfolding estimateMaintenanceHours_def rates
    by (simp add: falsy_or_def) (simp add: double_eval Math_round_def)
qed

lemma getPackageMetrics_unknown:
  "packageInfoOf w name = None \<Longrightarrow>
     getPackageMetrics w now name version st =
       (Inr \<lparr>found = False,
             maintenance = Some (calculateMaintenanceMetrics now None),
             complexity = Some (calculateComplexityMetrics None noOverrides)\<rparr>,
        send (PackageQuery name) st)"
  by (simp add: getPackageMetrics_def getPackageInfo_def)

text \<open>
  C1. The claim does not hold of the code. For a package the registry does not know,
  \<open>getPackageMetrics\<close> supplies the maintenance record of \<open>calculateMaintenanceMetrics\<close>
  without package info, whose score field is 0, and a complexity record with the score
  field 100. \<open>calculateCompositeScore\<close> reads the maintenance score with \<open>|| 50\<close>, which
  takes the 0 for a missing value: the maintenance sub-score is 50 and the total 90, where
  the weighted sum over the score fields, 50 + 0 + 15 + 15 + 5, is 85.
\<close>

theorem calculateCompositeScore_zero_score:
  "getPackageMetrics exampleWorld 0 ''left-pad'' None freshState =
     (Inr unknownPackage, send (PackageQuery ''left-pad'') freshState) \<and>
   Option.bind (maintenance unknownPackage) m_score = Some 0 \<and>
   Option.bind (complexity unknownPackage) c_score = Some 100 \<and>
   calculateCVEScore (Some noFindings) = 100 \<and>
   calculateTechnicalLagScore noFindings (calculateMaintenanceMetrics 0 None) = 100 \<and>
   f_score (maintenanceHealth (breakdown (calculateCompositeScore noFindings unknownPackage)))
     = 50 \<and>
   totalScore (calculateCompositeScore noFindings unknownPackage) = 90 \<and>
   weightedTotal 100 0 100 100 50 = 85"
proof -
  have fetched: "getPackageMetrics exampleWorld 0 ''left-pad'' None freshState =
     (Inr unknownPackage, send (PackageQuery ''left-pad'') freshState)"
    unfolding unknownPackage_def
    by (rule getPackageMetrics_unknown) (simp add: exampleWorld_def)
  have ms: "Option.bind (maintenance unknownPackage) m_score = Some 0"
    by (simp add: unknownPackage_def maintenance_unknown)
  have cs: "Option.bind (complexity unknownPackage) c_score = Some 100"
    by (simp add: unknownPackage_def complexity_unknown)
  have lag: "calculateTechnicalLagScore noFindings (calculateMaintenanceMetrics 0 None) = 100"
    by (simp add: maintenance_unknown lag_noFindings_null)
  have lag': "calculateTechnicalLagScore noFindings
                (case maintenance unknownPackage of None \<Rightarrow> emptyMaintenance | Some m \<Rightarrow> m)
              = 100"
    using lag by (simp add: unknownPackage_def)
  have sub: "f_score (maintenanceHealth
                (breakdown (calculateCompositeScore noFindings unknownPackage))) = 50"
    by (simp add: calculateCompositeScore_def Let_def factor_def ms falsy_or_def)
  have total: "totalScore (calculateCompositeScore noFindings unknownPackage) = 90"
    unfolding totalScore_unfold ms cs lag' calculateCVEScore_noFindings
    by (simp add: falsy_or_def weightedTotal_examples)
  show ?thesis
    using fetched ms cs calculateCVEScore_noFindings lag sub total weightedTotal_examples(2)
    by simp
qed

section \<open>The complexity metrics\<close>

lemma total_step:
  "(if (t::nat) > 500 then s - 50 else if t > 200 then s - 35 else if t > 100 then s - 20
    else if t > 50 then s - 10 else s) = s - totalDepsBand t"
  by (simp add: totalDepsBand_def)

lemma direct_step:
  "(if (d::nat) > 50 then s - 20 else if d > 30 then s - 15 else if d > 15 then s - 10
    else if d > 5 then s - 5 else s) = s - directDepsBand d"
  by (simp add: directDepsBand_def)

text \<open>
  C8, amended. With version info that carries a dependency list, \<open>directDependencies\<close> is
  the override when one is given, else the declared count; \<open>totalDependencies\<close> is the
  override when one is given, else \<open>directDependencies\<close> times 15; the score is 100 less
  the total-dependency band, less the direct-dependency band, clamped to the interval from
  0 to 100. Without version info (or without its dependency list) the score is 100 and the
  level \<open>low\<close> whatever the overrides, and the counts are the overrides, 0 where absent;
  with no input and no overrides: score 100, zero counts, \<open>low\<close>.
\<close>

theorem calculateComplexityMetrics_bands:
  "calculateComplexityMetrics (Some \<lparr>dependencies = Some deps\<rparr>) ov =
     (let d = (case o_directDependencies ov of None \<Rightarrow> length deps | Some x \<Rightarrow> x);
          t = (case o_totalDependencies ov of None \<Rightarrow> d * 15 | Some y \<Rightarrow> y)
      in \<lparr>c_score = Some (max 0 (min 100 (100 - totalDepsBand t - directDepsBand d))),
          directDependencies = Some d, totalDependencies = Some t,
          complexityLevel = Some (levelOf t)\<rparr>) \<and>
   calculateComplexityMetrics None ov =
     \<lparr>c_score = Some 100,
      directDependencies = Some (case o_directDependencies ov of None \<Rightarrow> 0 | Some x \<Rightarrow> x),
      totalDependencies = Some (case o_totalDependencies ov of None \<Rightarrow> 0 | Some y \<Rightarrow> y),
      complexityLevel = Some ''low''\<rparr> \<and>
   calculateComplexityMetrics (Some \<lparr>dependencies = None\<rparr>) ov =
     calculateComplexityMetrics None ov \<and>
   calculateComplexityMetrics None noOverrides =
     \<lparr>c_score = Some 100, directDependencies = Some 0, totalDependencies = Some 0,
      complexityLevel = Some ''low''\<rparr>"
proof -
  have main: "calculateComplexityMetrics (Some \<lparr>dependencies = Some deps\<rparr>) ov =
     (let d = (case o_directDependencies ov of None \<Rightarrow> length deps | Some x \<Rightarrow> x);
          t = (case o_totalDependencies ov of None \<Rightarrow> d * 15 | Some y \<Rightarrow> y)
      in \<lparr>c_score = Some (max 0 (min 100 (100 - totalDepsBand t - directDepsBand d))),
          directDependencies = Some d, totalDependencies = Some t,
          complexityLevel = Some (levelOf t)\<rparr>)"
    unfolding calculateComplexityMetrics_def Let_def total_step direct_step clamp100_def levelOf_def
    by simp
  have none: "calculateComplexityMetrics None ov =
     \<lparr>c_score = Some 100,
      directDependencies = Some (case o_directDependencies ov of None \<Rightarrow> 0 | Some x \<Rightarrow> x),
      totalDependencies = Some (case o_totalDependencies ov of None \<Rightarrow> 0 | Some y \<Rightarrow> y),
      complexityLevel = Some ''low''\<rparr>"
    by (simp add: calculateComplexityMetrics_def falsy_or_def split: option.split)
  have nodeps: "calculateComplexityMetrics (Some \<lparr>dependencies = None\<rparr>) ov =
     calculateComplexityMetrics None ov"
    by (simp add: calculateComplexityMetrics_def)
  show ?thesis using main none nodeps complexity_unknown by simp
qed

text \<open>
  C8, as stated, fails. Without version info the function returns before any band is
  applied: with the overrides 60 and 600 the score is 100, not 100 - 50 - 20 = 30, and with
  only the direct override 10 the total is 0, not 150.
\<close>

theorem calculateComplexityMetrics_early_return_counterexample:
  "c_score (calculateComplexityMetrics None \<lparr>o_directDependencies = Some 60, o_totalDependencies = Some 600\<rparr>) = Some 100 \<and>
   max 0 (min 100 (100 - totalDepsBand 600 - directDepsBand 60)) = 30 \<and>
   totalDependencies (calculateComplexityMetrics None \<lparr>o_directDependencies = Some 10, o_totalDependencies = None\<rparr>) = Some 0"
  by (simp add: calculateComplexityMetrics_def falsy_or_def totalDepsBand_def directDepsBand_def)

text \<open>Sixty declared dependencies: 900 estimated in total, 100 - 50 - 20 = 30.\<close>

theorem calculateComplexityMetrics_bands_witness: "calculateComplexityMetrics (Some \<lparr>dependencies = Some (replicate 60 ''dep'')\<rparr>) noOverrides = 
  \<lparr>c_score = Some 30, directDependencies = Some 60, totalDependencies = Some 900,
      complexityLevel = Some ''very high''\<rparr>"
  using calculateComplexityMetrics_bands[of "replicate 60 ''dep''" noOverrides]
  by (simp add: noOverrides_def totalDepsBand_def directDepsBand_def levelOf_def)


section \<open>The project summary: statistics\<close>

lemma falsy_or_nat: "falsy_or x (0::nat) = (case x of None \<Rightarrow> 0 | Some n \<Rightarrow> n)"
  by (simp add: falsy_or_def split: option.split)

lemma falsy_or_Some_0: "falsy_or (Some h) (0::int) = h"
  by (simp add: falsy_or_def)

lemma foldl_plus: "foldl (\<lambda>sum s. sum + s) (a::int) xs = a + sum_list xs"
  by (induction xs arbitrary: a) simp_all

lemma addPackage_fields:
  "riskCounts (addPackage v t) l = riskCounts t l + (if riskLevel (snd v) = l then 1 else 0)"
  "sumHours (addPackage v t) = sumHours t + hoursOf v"
  "sumCVEs (addPackage v t) = sumCVEs t + cvesOf v"
  "sumCritical (addPackage v t) = sumCritical t + criticalOf v"
  by (cases v; simp add: addPackage_def hoursOf_def cvesOf_def criticalOf_def falsy_or_nat
        falsy_or_Some_0)+

lemma fold_addPackage:
  "fold addPackage vs t =
     \<lparr>riskCounts = (\<lambda>l. riskCounts t l + length (filter (\<lambda>ps. riskLevel (snd ps) = l) vs)),
      sumHours = sumHours t + sum_list (map hoursOf vs),
      sumCVEs = sumCVEs t + sum_list (map cvesOf vs),
      sumCritical = sumCritical t + sum_list (map criticalOf vs)\<rparr>"
proof (induction vs arbitrary: t)
  case Nil
  show ?case by simp
next
  case (Cons v vs)
  have step: "fold addPackage (v # vs) t = fold addPackage vs (addPackage v t)"
    by simp
  show ?case
    unfolding step Cons.IH
    by (simp add: addPackage_fields fun_eq_iff)
qed

lemma split_scoreOf: "(\<lambda>(p, sc). totalScore sc) = scoreOf"
  by (simp add: scoreOf_def fun_eq_iff)

lemma split_entryOf:
  "(\<lambda>(p, sc). \<lparr>hr_name = packageName p, hr_score = totalScore sc, hr_risk = riskLevel sc\<rparr>)
     = entryOf"
  by (simp add: entryOf_def fun_eq_iff)

lemma summary_closed_form:
  "calculateProjectSummary today ps =
     (if validPackages ps = [] then None
      else Some \<lparr>averageScore =
                   Math_round (of_int (sum_list (map scoreOf (validPackages ps))) /
                               of_nat (length (validPackages ps))),
                 totalMaintenanceHours = sum_list (map hoursOf (validPackages ps)),
                 s_totalCVEs = sum_list (map cvesOf (validPackages ps)),
                 totalCriticalCVEs = sum_list (map criticalOf (validPackages ps)),
                 riskDistribution =
                   (\<lambda>l. length (filter (\<lambda>ps. riskLevel (snd ps) = l) (validPackages ps))),
                 highestRiskPackages =
                   map entryOf (take 5 (sort_key scoreOf (validPackages ps))),
                 analysisDate = today\<rparr>)"
  unfolding calculateProjectSummary_def Let_def split_scoreOf split_entryOf fold_addPackage
    foldl_plus
  by simp

lemma validPackages_filter:
  "validPackages (filter (\<lambda>p. score p \<noteq> None) ps) = validPackages ps"
  by (induction ps) (auto simp: validPackages_def List.map_filter_simps split: option.splits)

lemma validPackages_Nil_iff: "validPackages ps = [] \<longleftrightarrow> (\<forall>p \<in> set ps. score p = None)"
  by (induction ps) (auto simp: validPackages_def List.map_filter_simps split: option.splits)

lemma validPackages_all_scored:
  "(\<And>p. p \<in> set ps \<Longrightarrow> score p = Some (f p)) \<Longrightarrow> validPackages ps = map (\<lambda>p. (p, f p)) ps"
  by (induction ps) (auto simp: validPackages_def List.map_filter_simps)

text \<open>
  C9. An empty list gives no summary. The scored entries of a list in which every package
  carries a score are the packages themselves, in order. For a list with at least one
  scored entry the summary exists; its average is the rounded mean of the total scores;
  hours, findings and critical findings are the sums over the scored entries; each risk
  tier counts its entries; and the highest-risk list is the first five of \<open>lowestFirst\<close>,
  the scored entries in ascending order of score, entries of equal score in their order
  of encounter.
\<close>

theorem calculateProjectSummary_statistics:
  "calculateProjectSummary today [] = None \<and>
   ((\<forall>p \<in> set ps. score p \<noteq> None) \<longrightarrow> map fst (validPackages ps) = ps) \<and>
   (validPackages ps \<noteq> [] \<longrightarrow>
     (\<exists>s lowestFirst.
        calculateProjectSummary today ps = Some s \<and>
        averageScore s =
          Math_round (of_int (sum_list (map scoreOf (validPackages ps))) /
                      of_nat (length (validPackages ps))) \<and>
        totalMaintenanceHours s = sum_list (map hoursOf (validPackages ps)) \<and>
        s_totalCVEs s = sum_list (map cvesOf (validPackages ps)) \<and>
        totalCriticalCVEs s = sum_list (map criticalOf (validPackages ps)) \<and>
        (\<forall>l. riskDistribution s l =
               length (filter (\<lambda>e. riskLevel (snd e) = l) (validPackages ps))) \<and>
        mset lowestFirst = mset (validPackages ps) \<and>
        sorted (map scoreOf lowestFirst) \<and>
        (\<forall>k. filter (\<lambda>e. scoreOf e = k) lowestFirst =
              filter (\<lambda>e. scoreOf e = k) (validPackages ps)) \<and>
        highestRiskPackages s = map entryOf (take 5 lowestFirst)))"
proof -
  have empty: "calculateProjectSummary today [] = None"
    by (simp add: summary_closed_form validPackages_def List.map_filter_simps)
  have rest: "\<exists>s lowestFirst.
        calculateProjectSummary today ps = Some s \<and>
        averageScore s =
          Math_round (of_int (sum_list (map scoreOf (validPackages ps))) /
                      of_nat (length (validPackages ps))) \<and>
        totalMaintenanceHours s = sum_list (map hoursOf (validPackages ps)) \<and>
        s_totalCVEs s = sum_list (map cvesOf (validPackages ps)) \<and>
        totalCriticalCVEs s = sum_list (map criticalOf (validPackages ps)) \<and>
        (\<forall>l. riskDistribution s l =
               length (filter (\<lambda>e. riskLevel (snd e) = l) (validPackages ps))) \<and>
        mset lowestFirst = mset (validPackages ps) \<and>
        sorted (map scoreOf lowestFirst) \<and>
        (\<forall>k. filter (\<lambda>e. scoreOf e = k) lowestFirst =
              filter (\<lambda>e. scoreOf e = k) (validPackages ps)) \<and>
        highestRiskPackages s = map entryOf (take 5 lowestFirst)"
    if ne: "validPackages ps \<noteq> []"
  proof -
    let ?srt = "sort_key scoreOf (validPackages ps)"
    have "mset ?srt = mset (validPackages ps)" by simp
    moreover have "sorted (map scoreOf ?srt)" by simp
    moreover have "\<forall>k. filter (\<lambda>e. scoreOf e = k) ?srt =
                        filter (\<lambda>e. scoreOf e = k) (validPackages ps)"
      by (simp add: sort_key_stable)
    ultimately show ?thesis
      using ne by (simp add: summary_closed_form) (rule exI [of _ ?srt], simp)
  qed
  have whole: "(\<forall>p \<in> set ps. score p \<noteq> None) \<longrightarrow> map fst (validPackages ps) = ps"
    by (induction ps) (auto simp: validPackages_def List.map_filter_simps)
  show ?thesis using empty whole rest by blast
qed

lemma validPackages_example:
  "validPackages [pkg80, pkg60] = [(pkg80, scored 80 LOW 5), (pkg60, scored 60 MEDIUM 10)]"
  by (simp add: validPackages_def List.map_filter_simps pkg80_def pkg60_def analysed_def)

text \<open>
  Scores 80/LOW and 60/MEDIUM: average 70, 15 hours, 7 findings, 1 critical, the lower
  score first in the highest-risk list.
\<close>

theorem calculateProjectSummary_statistics_witness:
  "\<exists>s. calculateProjectSummary ''2026-01-01'' [pkg80, pkg60] = Some s \<and>
        averageScore s = 70 \<and> totalMaintenanceHours s = 15 \<and>
        s_totalCVEs s = 7 \<and> totalCriticalCVEs s = 1 \<and>
        riskDistribution s LOW = 1 \<and> riskDistribution s MEDIUM = 1 \<and>
        riskDistribution s HIGH = 0 \<and>
        map hr_name (highestRiskPackages s) = [''b'', ''a''] \<and>
        map fst (validPackages [pkg80, pkg60]) = [pkg80, pkg60]"
proof -
  have ne: "validPackages [pkg80, pkg60] \<noteq> []"
    by (simp add: validPackages_example)
  have all_scored: "\<forall>p \<in> set [pkg80, pkg60]. score p \<noteq> None"
    by (simp add: pkg80_def pkg60_def analysed_def)
  have whole: "map fst (validPackages [pkg80, pkg60]) = [pkg80, pkg60]"
    using calculateProjectSummary_statistics [of "''2026-01-01''" "[pkg80, pkg60]"] all_scored
    by blast
  from calculateProjectSummary_statistics [of "''2026-01-01''" "[pkg80, pkg60]"] ne
  obtain s lowestFirst where
    s: "calculateProjectSummary ''2026-01-01'' [pkg80, pkg60] = Some s"
    and avg: "averageScore s =
          Math_round (of_int (sum_list (map scoreOf (validPackages [pkg80, pkg60]))) /
                      of_nat (length (validPackages [pkg80, pkg60])))"
    and hrs: "totalMaintenanceHours s = sum_list (map hoursOf (validPackages [pkg80, pkg60]))"
    and cves: "s_totalCVEs s = sum_list (map cvesOf (validPackages [pkg80, pkg60]))"
    and crit: "totalCriticalCVEs s = sum_list (map criticalOf (validPackages [pkg80, pkg60]))"
    and dist: "\<forall>l. riskDistribution s l =
               length (filter (\<lambda>e. riskLevel (snd e) = l) (validPackages [pkg80, pkg60]))"
    by blast
  have srt: "sort_key scoreOf (validPackages [pkg80, pkg60]) =
               [(pkg60, scored 60 MEDIUM 10), (pkg80, scored 80 LOW 5)]"
    unfolding validPackages_example by (simp add: scoreOf_def scored_def)
  have top: "map hr_name (highestRiskPackages s) = [''b'', ''a'']"
    using s unfolding summary_closed_form srt
    by (auto simp: validPackages_example entryOf_def pkg80_def pkg60_def analysed_def
          split: if_splits)
  have "averageScore s = 70"
    unfolding avg validPackages_example by (simp add: scoreOf_def scored_def Math_round_def)
  moreover have "totalMaintenanceHours s = 15"
    unfolding hrs validPackages_example by (simp add: hoursOf_def scored_def)
  moreover have "s_totalCVEs s = 7"
    unfolding cves validPackages_example
    by (simp add: cvesOf_def pkg80_def pkg60_def analysed_def counted_def)
  moreover have "totalCriticalCVEs s = 1"
    unfolding crit validPackages_example
    by (simp add: criticalOf_def pkg80_def pkg60_def analysed_def counted_def)
  moreover have "riskDistribution s LOW = 1" "riskDistribution s MEDIUM = 1"
    "riskDistribution s HIGH = 0"
    using dist by (simp_all add: validPackages_example scored_def)
  ultimately show ?thesis using s top whole by simp
qed

lemma analyzePackage_score_error:
  "analyzePackage w metricsOf now name version c shallow st = Some (r, st')
     \<Longrightarrow> (score r = None) = (error r \<noteq> None)"
  by (auto simp: analyzePackage_def Let_def split: option.splits prod.splits sum.splits)

text \<open>
  C10. The summary is absent exactly when no entry carries a score; the summary of a list
  is the summary of its scored entries alone, so an entry without a score enters no
  statistic; and a result of \<open>analyzePackage\<close> that reports an error carries no score.
\<close>

theorem calculateProjectSummary_skips_unscored:
  "(calculateProjectSummary today ps = None \<longleftrightarrow> (\<forall>p \<in> set ps. score p = None)) \<and>
   calculateProjectSummary today ps =
     calculateProjectSummary today (filter (\<lambda>p. score p \<noteq> None) ps) \<and>
   (analyzePackage w metricsOf now name version c shallow st = Some (r, st') \<and>
      error r \<noteq> None \<longrightarrow> score r = None)"
proof -
  have null: "calculateProjectSummary today ps = None \<longleftrightarrow> (\<forall>p \<in> set ps. score p = None)"
    unfolding summary_closed_form validPackages_Nil_iff [symmetric] by simp
  have same: "calculateProjectSummary today ps =
                calculateProjectSummary today (filter (\<lambda>p. score p \<noteq> None) ps)"
    unfolding summary_closed_form validPackages_filter ..
  have failed: "analyzePackage w metricsOf now name version c shallow st = Some (r, st') \<and>
                  error r \<noteq> None \<longrightarrow> score r = None"
    using analyzePackage_score_error [of w metricsOf now name version c shallow st r st']
    by blast
  show ?thesis using null same failed by blast
qed

lemma analyzePackage_broken:
  "\<exists>r st'. analyzePackage brokenWorld (\<lambda>_. noFindings) 0 ''broken'' None 5 True freshState
              = Some (r, st') \<and> error r = Some ''TypeError''"
  by (simp add: analyzePackage_def getTransitiveCVEMetrics_def
        getPackageVulnerabilityMetrics_def queryVulnerabilities_def vulns_or_empty_def
        getPackageMetrics_def getPackageInfo_def brokenWorld_def byPublishDateDesc_def Let_def)

text \<open>
  Two failed entries among two scored ones change nothing; alone they give no summary;
  and an analysis that throws, because the newest release lacks its version key, yields
  such an entry.
\<close>

theorem calculateProjectSummary_skips_unscored_witness:
  "calculateProjectSummary ''2026-01-01'' [errored ''x'', pkg80, errored ''y'', pkg60] =
     calculateProjectSummary ''2026-01-01'' [pkg80, pkg60] \<and>
   calculateProjectSummary ''2026-01-01'' [errored ''x'', pkg80, errored ''y'', pkg60] \<noteq> None \<and>
   calculateProjectSummary ''2026-01-01'' [errored ''x'', errored ''y''] = None \<and>
   (\<exists>r st'. analyzePackage brokenWorld (\<lambda>_. noFindings) 0 ''broken'' None 5 True freshState
               = Some (r, st') \<and>
            score r = None \<and> calculateProjectSummary ''2026-01-01'' [r] = None)"
proof -
  have kept: "filter (\<lambda>p. score p \<noteq> None) [errored ''x'', pkg80, errored ''y'', pkg60] =
                [pkg80, pkg60]"
    by (simp add: errored_def pkg80_def pkg60_def analysed_def)
  have scored: "score pkg80 \<noteq> None"
    by (simp add: pkg80_def analysed_def)
  have unscored: "score (errored n) = None" for n
    by (simp add: errored_def)
  note mixed = calculateProjectSummary_skips_unscored
                 [of "''2026-01-01''" "[errored ''x'', pkg80, errored ''y'', pkg60]"]
  note failed = calculateProjectSummary_skips_unscored
                  [of "''2026-01-01''" "[errored ''x'', errored ''y'']"]
  have "calculateProjectSummary ''2026-01-01'' [errored ''x'', pkg80, errored ''y'', pkg60] =
          calculateProjectSummary ''2026-01-01'' [pkg80, pkg60]"
    using mixed [THEN conjunct2, THEN conjunct1] unfolding kept .
  moreover have
    "calculateProjectSummary ''2026-01-01'' [errored ''x'', pkg80, errored ''y'', pkg60] \<noteq> None"
    using mixed [THEN conjunct1] scored by simp
  moreover have "calculateProjectSummary ''2026-01-01'' [errored ''x'', errored ''y''] = None"
    using failed [THEN conjunct1] unscored by simp
  moreover have "\<exists>r st'.
      analyzePackage brokenWorld (\<lambda>_. noFindings) 0 ''broken'' None 5 True freshState
        = Some (r, st') \<and>
      score r = None \<and> calculateProjectSummary ''2026-01-01'' [r] = None"
  proof -
    from analyzePackage_broken obtain r st' where
      run: "analyzePackage brokenWorld (\<lambda>_. noFindings) 0 ''broken'' None 5 True freshState
              = Some (r, st')"
      and err: "error r = Some ''TypeError''"
      by blast
    note thrown = calculateProjectSummary_skips_unscored
                    [where today = "''2026-01-01''" and ps = "[r]" and w = brokenWorld
                       and metricsOf = "\<lambda>_. noFindings" and now = 0 and name = "''broken''"
                       and version = None and c = 5 and shallow = True and st = freshState
                       and r = r and st' = st']
    have none: "score r = None"
      using thrown [THEN conjunct2, THEN conjunct2] run err by simp
    have "calculateProjectSummary ''2026-01-01'' [r] = None"
      using thrown [THEN conjunct1] none by simp
    then show ?thesis using run none by blast
  qed
  ultimately show ?thesis by simp
qed


section \<open>Batch lookup: termination and contract\<close>

lemma queryVulnerabilities_queried:
  "queryVulnerabilities w n st = (data, st1) \<Longrightarrow>
     vulns_or_empty data = (if nullReply w n then Inl TypeError else Inr (queried w n)) \<and>
     st1 = send (OsvQuery n) st"
  by (auto simp: queryVulnerabilities_def queried_def vulns_or_empty_def nullReply_def
        split: OsvResponse.splits OsvData.splits option.splits)

lemma fetchBatch_requests:
  "snd (fetchBatch w names st) = st\<lparr>requests := requests st @ map OsvQuery names\<rparr>"
proof (induction names arbitrary: st)
  case Nil
  show ?case by simp
next
  case (Cons n names)
  obtain data where q: "queryVulnerabilities w n st = (data, send (OsvQuery n) st)"
    by (simp add: queryVulnerabilities_def)
  obtain others st2 where f: "fetchBatch w names (send (OsvQuery n) st) = (others, st2)"
    by (cases "fetchBatch w names (send (OsvQuery n) st)")
  have "st2 = (send (OsvQuery n) st)\<lparr>requests :=
                 requests (send (OsvQuery n) st) @ map OsvQuery names\<rparr>"
    using Cons.IH [of "send (OsvQuery n) st"] f by simp
  then show ?case
    unfolding fetchBatch.simps q Let_def prod.case f by (simp add: send_def)
qed

lemma fetchBatch_closed:
  "\<forall>n \<in> set names. \<not> nullReply w n \<Longrightarrow>
   fetchBatch w names st =
     (Inr (map (\<lambda>n. (n, queried w n)) names),
      st\<lparr>requests := requests st @ map OsvQuery names\<rparr>)"
proof (induction names arbitrary: st)
  case Nil
  show ?case by simp
next
  case (Cons n names)
  obtain data st1 where q: "queryVulnerabilities w n st = (data, st1)"
    by (cases "queryVulnerabilities w n st")
  from queryVulnerabilities_queried [OF q] Cons.prems
  have d: "vulns_or_empty data = Inr (queried w n)" and s: "st1 = send (OsvQuery n) st"
    by simp_all
  have rest: "\<forall>n \<in> set names. \<not> nullReply w n" using Cons.prems by simp
  show ?case
    by (simp add: q Cons.IH [OF rest] d s send_def)
qed

lemma fetchBatch_thrown:
  "\<exists>n \<in> set names. nullReply w n \<Longrightarrow>
   fetchBatch w names st = (Inl TypeError, st\<lparr>requests := requests st @ map OsvQuery names\<rparr>)"
proof -
  assume null: "\<exists>n \<in> set names. nullReply w n"
  have "fst (fetchBatch w names st) = Inl TypeError" using null
  proof (induction names arbitrary: st)
    case Nil
    then show ?case by simp
  next
    case (Cons n names)
    obtain data st1 where q: "queryVulnerabilities w n st = (data, st1)"
      by (cases "queryVulnerabilities w n st")
    note d = queryVulnerabilities_queried [OF q, THEN conjunct1]
    obtain others st2 where f: "fetchBatch w names st1 = (others, st2)"
      by (cases "fetchBatch w names st1")
    show ?case
    proof (cases "nullReply w n")
      case True
      then show ?thesis by (simp add: q d f)
    next
      case False
      then have "\<exists>n \<in> set names. nullReply w n" using Cons.prems by simp
      from Cons.IH [OF this, of st1] have "others = Inl TypeError" using f by simp
      then show ?thesis
        using False by (simp add: q d f)
    qed
  qed
  then show ?thesis
    using fetchBatch_requests [of w names st] by (cases "fetchBatch w names st") simp
qed

lemma storeBatch_closed:
  "storeBatch (map (\<lambda>n. (n, f n)) names) (results, st) =
     (fold (\<lambda>n. AList.update n (f n)) names results,
      st\<lparr>vulnCache := fold (\<lambda>n c. c(n \<mapsto> f n)) names (vulnCache st)\<rparr>)"
  by (induction names arbitrary: results st) simp_all

lemma processNames_append:
  "processNames w ys (processNames w xs acc) = processNames w (xs @ ys) acc"
  by (simp add: processNames_def)

lemma js_slice_forward:
  "0 \<le> i \<Longrightarrow> 0 < c \<Longrightarrow> js_slice xs i (i + c) = take (nat c) (drop (nat i) xs)"
proof (cases "i < int (length xs)")
  case False
  assume "0 \<le> i" "0 < c"
  with False show ?thesis by (simp add: js_slice_def Let_def)
next
  case True
  assume i: "0 \<le> i" and c: "0 < c"
  have "nat (min (i + c) (int (length xs)) - i) = min (nat c) (length xs - nat i)"
    using True i c by (simp add: min_def) linarith
  moreover have "take (min (nat c) (length xs - nat i)) (drop (nat i) xs)
                   = take (nat c) (drop (nat i) xs)"
    by (simp add: min_def)
  ultimately show ?thesis
    using True i c by (simp add: js_slice_def Let_def min_absorb1)
qed

lemma batchLoop_terminates:
  assumes c: "0 < concurrency"
  shows "0 \<le> i \<Longrightarrow> \<forall>n \<in> set (drop (nat i) names). \<not> nullReply w n \<Longrightarrow>
         batchLoop w concurrency names i acc =
           Some (Inr (fst (processNames w (drop (nat i) names) acc)),
                 snd (processNames w (drop (nat i) names) acc))"
proof (induction "length names - nat i" arbitrary: i acc rule: less_induct)
  case less
  show ?case
  proof (cases "i < int (length names)")
    case False
    then have "drop (nat i) names = []" using less.prems by simp
    then show ?thesis
      using False by (subst batchLoop.simps) (simp add: processNames_def)
  next
    case True
    have smaller: "length names - nat (i + concurrency) < length names - nat i"
      using True c less.prems by linarith
    have nonneg: "0 \<le> i + concurrency" using c less.prems by simp
    have split: "take (nat concurrency) (drop (nat i) names) @ drop (nat (i + concurrency)) names
                   = drop (nat i) names"
    proof -
      have "nat (i + concurrency) = nat concurrency + nat i"
        using c less.prems by (simp add: nat_add_distrib)
      then have "drop (nat (i + concurrency)) names = drop (nat concurrency) (drop (nat i) names)"
        by (simp add: add.commute)
      then show ?thesis by (simp only: append_take_drop_id)
    qed
    have batch_ok: "\<forall>n \<in> set (take (nat concurrency) (drop (nat i) names)). \<not> nullReply w n"
      using less.prems(2) by (auto dest: in_set_takeD)
    have rest_ok: "\<forall>n \<in> set (drop (nat (i + concurrency)) names). \<not> nullReply w n"
    proof -
      have "set (drop (nat (i + concurrency)) names) \<subseteq> set (drop (nat i) names)"
        using split by (metis Un_upper2 set_append)
      then show ?thesis using less.prems(2) by blast
    qed
    have step: "batchLoop w concurrency names i acc =
                  batchLoop w concurrency names (i + concurrency)
                    (processNames w (take (nat concurrency) (drop (nat i) names)) acc)"
      by (subst batchLoop.simps)
         (simp add: True js_slice_forward [OF less.prems(1) c] fetchBatch_closed [OF batch_ok]
            storeBatch_closed processNames_def)
    show ?thesis
      unfolding step less.hyps [OF smaller nonneg rest_ok] processNames_append split ..
  qed
qed

text \<open>With a positive limit the call always ends, with a mapping or with what was thrown.\<close>

lemma batchLoop_returns:
  assumes c: "0 < concurrency"
  shows "0 \<le> i \<Longrightarrow> batchLoop w concurrency names i acc \<noteq> None"
proof (induction "length names - nat i" arbitrary: i acc rule: less_induct)
  case less
  show ?case
  proof (cases "i < int (length names)")
    case False
    then show ?thesis by (subst batchLoop.simps) simp
  next
    case True
    have smaller: "length names - nat (i + concurrency) < length names - nat i"
      using True c less.prems by linarith
    have nonneg: "0 \<le> i + concurrency" using c less.prems by simp
    obtain batchResults st1 where
      f: "fetchBatch w (js_slice names i (i + concurrency)) (snd acc) = (batchResults, st1)"
      by (cases "fetchBatch w (js_slice names i (i + concurrency)) (snd acc)")
    show ?thesis
    proof (cases batchResults)
      case (Inl thrown)
      then show ?thesis
        by (subst batchLoop.simps) (simp add: True f)
    next
      case (Inr fetched)
      have "batchLoop w concurrency names i acc =
              batchLoop w concurrency names (i + concurrency) (storeBatch fetched (fst acc, st1))"
        by (subst batchLoop.simps) (simp add: True f Inr)
      then show ?thesis using less.hyps [OF smaller nonneg] by simp
    qed
  qed
qed

lemma partitionCached_closed:
  "partitionCached cache names results unc =
     (fold (\<lambda>n r. case cache n of Some v \<Rightarrow> AList.update n v r | None \<Rightarrow> r) names results,
      unc @ filter (\<lambda>n. cache n = None) names)"
  by (induction names arbitrary: results unc) (auto split: option.splits)

lemma queryVulnerabilitiesBatch_closed:
  "0 < concurrency \<Longrightarrow> \<forall>n \<in> set (uncachedIn st names). \<not> nullReply w n \<Longrightarrow>
   queryVulnerabilitiesBatch w names concurrency st =
     Some (Inr (fst (processNames w (uncachedIn st names) (cachedResults st names, st))),
           snd (processNames w (uncachedIn st names) (cachedResults st names, st)))"
  by (simp add: queryVulnerabilitiesBatch_def partitionCached_closed batchLoop_terminates
        cachedResults_def uncachedIn_def)

lemma queryVulnerabilitiesBatch_returns:
  "0 < concurrency \<Longrightarrow> queryVulnerabilitiesBatch w names concurrency st \<noteq> None"
  by (simp add: queryVulnerabilitiesBatch_def partitionCached_closed batchLoop_returns)

lemma map_of_fold_update:
  "map_of (fold (\<lambda>n. AList.update n (f n)) ks r) n =
     (if n \<in> set ks then Some (f n) else map_of r n)"
  by (induction ks arbitrary: r) (auto simp: AList.update_conv')

lemma map_of_fold_cached:
  "map_of (fold (\<lambda>n r. case cache n of Some v \<Rightarrow> AList.update n v r | None \<Rightarrow> r) ks r) n =
     (if n \<in> set ks \<and> cache n \<noteq> None then cache n else map_of r n)"
  by (induction ks arbitrary: r) (auto simp: AList.update_conv' split: option.splits)

lemma fold_cache_upd:
  "fold (\<lambda>n c. c(n \<mapsto> f n)) ks c0 n = (if n \<in> set ks then Some (f n) else c0 n)"
  by (induction ks arbitrary: c0) auto

lemma keys_fold_update:
  "fst ` set (fold (\<lambda>n. AList.update n (f n)) ks r) = set ks \<union> fst ` set r"
  by (induction ks arbitrary: r) (auto simp: AList.dom_update)

lemma keys_fold_cached:
  "fst ` set (fold (\<lambda>n r. case cache n of Some v \<Rightarrow> AList.update n v r | None \<Rightarrow> r) ks r) =
     {n \<in> set ks. cache n \<noteq> None} \<union> fst ` set r"
  by (induction ks arbitrary: r) (auto simp: AList.dom_update split: option.splits)

lemma batch_results:
  "map_of (fst (processNames w (uncachedIn st names) (cachedResults st names, st))) n =
     (if n \<in> set names
      then (case vulnCache st n of Some v \<Rightarrow> Some v | None \<Rightarrow> Some (queried w n))
      else None)"
  by (auto simp: processNames_def cachedResults_def uncachedIn_def map_of_fold_update
        map_of_fold_cached split: option.splits)

lemma batch_keys:
  "fst ` set (fst (processNames w (uncachedIn st names) (cachedResults st names, st))) = set names"
  by (auto simp: processNames_def cachedResults_def uncachedIn_def keys_fold_update
        keys_fold_cached)

lemma batch_cache:
  "vulnCache (snd (processNames w (uncachedIn st names) (cachedResults st names, st))) n =
     (if n \<in> set names \<and> vulnCache st n = None then Some (queried w n) else vulnCache st n)"
  by (auto simp: processNames_def uncachedIn_def fold_cache_upd)

lemma batch_requests:
  "requests (snd (processNames w (uncachedIn st names) (cachedResults st names, st))) =
     requests st @ map OsvQuery (uncachedIn st names)"
  by (simp add: processNames_def)

text \<open>
  The limit has to be positive: with a step of zero or less and one uncached name the loop
  never passes the end of the list, and unless a batch rejects the call does not return.
\<close>

lemma js_slice_subset: "set (js_slice xs a b) \<subseteq> set xs"
proof -
  have "set (take k (drop j xs)) \<subseteq> set xs" for k j
    using set_take_subset [of k "drop j xs"] set_drop_subset [of j xs] by blast
  then show ?thesis by (simp add: js_slice_def Let_def)
qed

lemma batchLoop_stuck:
  assumes "batchLoop w concurrency names i acc = Some out"
  shows "(\<forall>n \<in> set names. \<not> nullReply w n) \<longrightarrow> \<not> (concurrency \<le> 0 \<and> i \<le> 0 \<and> names \<noteq> [])"
proof (rule batchLoop.raw_induct
         [where P = "\<lambda>w c ns i acc out.
                       (\<forall>n \<in> set ns. \<not> nullReply w n) \<longrightarrow> \<not> (c \<le> 0 \<and> i \<le> 0 \<and> ns \<noteq> [])",
          OF _ assms])
  fix loop w c ns i acc out
  assume ih: "\<And>w c ns i acc out. loop w c ns i acc = Some out
                 \<Longrightarrow> (\<forall>n \<in> set ns. \<not> nullReply w n) \<longrightarrow> \<not> (c \<le> 0 \<and> i \<le> 0 \<and> ns \<noteq> [])"
    and body: "(if i < int (length ns)
      then let batch = js_slice ns i (i + c);
               (batchResults, st1) = fetchBatch w batch (snd acc)
           in case batchResults of
                Inl thrown \<Rightarrow> Some (Inl thrown, st1)
              | Inr fetched \<Rightarrow> loop w c ns (i + c) (storeBatch fetched (fst acc, st1))
      else Some (Inr (fst acc), snd acc)) = Some out"
  show "(\<forall>n \<in> set ns. \<not> nullReply w n) \<longrightarrow> \<not> (c \<le> 0 \<and> i \<le> 0 \<and> ns \<noteq> [])"
  proof (intro impI notI)
    assume ok: "\<forall>n \<in> set ns. \<not> nullReply w n"
      and stuck: "c \<le> 0 \<and> i \<le> 0 \<and> ns \<noteq> []"
    then have more: "i < int (length ns)" by (cases ns) auto
    have "\<forall>n \<in> set (js_slice ns i (i + c)). \<not> nullReply w n"
      using ok js_slice_subset [of ns i "i + c"] by blast
    from fetchBatch_closed [OF this, of "snd acc"] body more
    obtain acc' where "loop w c ns (i + c) acc' = Some out"
      by (auto simp: Let_def)
    from ih [OF this] ok stuck show False by simp
  qed
qed

lemma batchLoop_diverges:
  "concurrency \<le> 0 \<Longrightarrow> names \<noteq> [] \<Longrightarrow> \<forall>n \<in> set names. \<not> nullReply w n \<Longrightarrow>
     batchLoop w concurrency names 0 acc = None"
  using batchLoop_stuck [of w concurrency names 0 acc]
  by (cases "batchLoop w concurrency names 0 acc") auto

lemma queryVulnerabilitiesBatch_diverges:
  assumes "concurrency \<le> 0" "n \<in> set names" "vulnCache st n = None"
      and "\<forall>n \<in> set (uncachedIn st names). \<not> nullReply w n"
  shows "queryVulnerabilitiesBatch w names concurrency st = None"
proof -
  have "filter (\<lambda>n. vulnCache st n = None) names \<noteq> []"
    using assms(2,3) by (auto simp: filter_empty_conv)
  then show ?thesis
    using assms(1,4)
    by (simp add: queryVulnerabilitiesBatch_def partitionCached_closed batchLoop_diverges
          uncachedIn_def)
qed

text \<open>
  C4, as stated, fails in two ways. With the limit 0 and one name to fetch the call never
  returns. With a positive limit, a reply that is the JSON value \<open>null\<close> makes the whole
  call reject: here \<open>pkg-b\<close> and \<open>pkg-n\<close> form one batch, both requests are sent, the
  reply for \<open>pkg-n\<close> is \<open>null\<close>, and the call ends with the error, the result of \<open>pkg-b\<close>
  neither returned nor cached.
\<close>

theorem queryVulnerabilitiesBatch_contract_counterexample:
  "queryVulnerabilitiesBatch exampleWorld [''pkg-b''] 0 freshState = None \<and>
   queryVulnerabilitiesBatch nullWorld [''pkg-a'', ''pkg-b'', ''pkg-n''] 5 seededState =
     Some (Inl TypeError,
           seededState\<lparr>requests := [OsvQuery ''pkg-b'', OsvQuery ''pkg-n'']\<rparr>) \<and>
   vulnCache seededState ''pkg-b'' = None"
proof -
  have "queryVulnerabilitiesBatch exampleWorld [''pkg-b''] 0 freshState = None"
    by (rule queryVulnerabilitiesBatch_diverges [where n = "''pkg-b''"])
       (simp_all add: freshState_def uncachedIn_def nullReply_def exampleWorld_def)
  moreover have
    "queryVulnerabilitiesBatch nullWorld [''pkg-a'', ''pkg-b'', ''pkg-n''] 5 seededState =
       Some (Inl TypeError,
             seededState\<lparr>requests := [OsvQuery ''pkg-b'', OsvQuery ''pkg-n'']\<rparr>)"
  proof -
    have slice: "js_slice [''pkg-b'', ''pkg-n''] 0 5 = [''pkg-b'', ''pkg-n'']"
      by (simp add: js_slice_def)
    show ?thesis
      unfolding queryVulnerabilitiesBatch_def
      apply (simp add: seededState_def)
      apply (subst batchLoop.simps)
      apply (simp add: slice queryVulnerabilities_def vulns_or_empty_def nullWorld_def
               exampleWorld_def send_def)
      done
  qed
  moreover have "vulnCache seededState ''pkg-b'' = None"
    by (simp add: seededState_def)
  ultimately show ?thesis by simp
qed

text \<open>
  C4, amended. With a positive concurrency limit, and no reply \<open>null\<close> to a requested name
  that is not in the cache, \<open>queryVulnerabilitiesBatch\<close> returns a mapping. It maps
  exactly the requested names. A name that was in the cache gets the cached list, and no
  request for it is among the requests the call added. A name that was not gets the list
  its lookup yields, an empty list included, and that list is in the cache when the call
  returns; a failed lookup yields the empty list. The requests added are one per uncached
  name, and no other cache entry changes. Making the lookups of any set of names fail
  changes the result for those names only, to the empty list, and the call still returns
  a mapping.
\<close>

theorem queryVulnerabilitiesBatch_contract:
  assumes c: "0 < concurrency"
      and r: "\<forall>n \<in> set (uncachedIn st names). \<not> nullReply w n"
  shows "\<exists>results st'.
     queryVulnerabilitiesBatch w names concurrency st = Some (Inr results, st') \<and>
     fst ` set results = set names \<and>
     (\<forall>n \<in> set names.
        case vulnCache st n of
          Some cached \<Rightarrow>
            map_of results n = Some cached \<and> vulnCache st' n = Some cached \<and>
            OsvQuery n \<notin> set (drop (length (requests st)) (requests st'))
        | None \<Rightarrow>
            map_of results n = Some (queried w n) \<and> vulnCache st' n = Some (queried w n) \<and>
            (osvOf w n = Failed \<longrightarrow> queried w n = [])) \<and>
     requests st' = requests st @ map OsvQuery (uncachedIn st names) \<and>
     (\<forall>n. n \<notin> set (uncachedIn st names) \<longrightarrow> vulnCache st' n = vulnCache st n) \<and>
     (\<forall>failing. \<exists>results' st''.
        queryVulnerabilitiesBatch
          (w\<lparr>osvOf := (\<lambda>n. if n \<in> failing then Failed else osvOf w n)\<rparr>)
          names concurrency st = Some (Inr results', st'') \<and>
        (\<forall>n \<in> set names.
           map_of results' n =
             (if n \<in> failing \<and> vulnCache st n = None then Some [] else map_of results n)))"
proof -
  let ?out = "processNames w (uncachedIn st names) (cachedResults st names, st)"
  have run: "queryVulnerabilitiesBatch w names concurrency st = Some (Inr (fst ?out), snd ?out)"
    using queryVulnerabilitiesBatch_closed [OF c r] by simp
  have keys: "fst ` set (fst ?out) = set names" by (rule batch_keys)
  have each: "\<forall>n \<in> set names.
        case vulnCache st n of
          Some cached \<Rightarrow>
            map_of (fst ?out) n = Some cached \<and> vulnCache (snd ?out) n = Some cached \<and>
            OsvQuery n \<notin> set (drop (length (requests st)) (requests (snd ?out)))
        | None \<Rightarrow>
            map_of (fst ?out) n = Some (queried w n) \<and>
            vulnCache (snd ?out) n = Some (queried w n) \<and>
            (osvOf w n = Failed \<longrightarrow> queried w n = [])"
    unfolding batch_results batch_cache batch_requests
    by (auto simp: uncachedIn_def queried_def split: option.splits)
  have reqs: "requests (snd ?out) = requests st @ map OsvQuery (uncachedIn st names)"
    by (rule batch_requests)
  have kept: "\<forall>n. n \<notin> set (uncachedIn st names) \<longrightarrow> vulnCache (snd ?out) n = vulnCache st n"
    unfolding batch_cache by (auto simp: uncachedIn_def)
  have isolated: "\<forall>failing. \<exists>results' st''.
        queryVulnerabilitiesBatch
          (w\<lparr>osvOf := (\<lambda>n. if n \<in> failing then Failed else osvOf w n)\<rparr>)
          names concurrency st = Some (Inr results', st'') \<and>
        (\<forall>n \<in> set names.
           map_of results' n =
             (if n \<in> failing \<and> vulnCache st n = None then Some [] else map_of (fst ?out) n))"
  proof
    fix failing
    let ?w = "w\<lparr>osvOf := (\<lambda>n. if n \<in> failing then Failed else osvOf w n)\<rparr>"
    let ?out' = "processNames ?w (uncachedIn st names) (cachedResults st names, st)"
    have r': "\<forall>n \<in> set (uncachedIn st names). \<not> nullReply ?w n"
      using r by (simp add: nullReply_def)
    have "queryVulnerabilitiesBatch ?w names concurrency st = Some (Inr (fst ?out'), snd ?out')"
      using queryVulnerabilitiesBatch_closed [OF c r'] by simp
    moreover have "\<forall>n \<in> set names.
           map_of (fst ?out') n =
             (if n \<in> failing \<and> vulnCache st n = None then Some [] else map_of (fst ?out) n)"
      unfolding batch_results by (auto simp: queried_def split: option.splits)
    ultimately show "\<exists>results' st''.
        queryVulnerabilitiesBatch ?w names concurrency st = Some (Inr results', st'') \<and>
        (\<forall>n \<in> set names.
           map_of results' n =
             (if n \<in> failing \<and> vulnCache st n = None then Some [] else map_of (fst ?out) n))"
      by blast
  qed
  show ?thesis
    using run keys each reqs kept isolated by blast
qed

text \<open>
  One cached name, one fetched, one whose lookup fails, in batches of one: two requests.
  When the lookup of \<open>pkg-b\<close> fails too, \<open>pkg-b\<close> gets the empty list and \<open>pkg-a\<close>
  keeps its own.
\<close>

theorem queryVulnerabilitiesBatch_contract_witness:
  "\<exists>results st'.
     queryVulnerabilitiesBatch exampleWorld [''pkg-a'', ''pkg-b'', ''pkg-c''] 1 seededState
       = Some (Inr results, st') \<and>
     map_of results ''pkg-a'' = Some [cve1FromA] \<and>
     map_of results ''pkg-b'' = Some [cve1FromB] \<and>
     map_of results ''pkg-c'' = Some [] \<and>
     vulnCache st' ''pkg-b'' = Some [cve1FromB] \<and>
     vulnCache st' ''pkg-c'' = Some [] \<and>
     requests st' = [OsvQuery ''pkg-b'', OsvQuery ''pkg-c''] \<and>
     (\<exists>results' st''.
        queryVulnerabilitiesBatch
          (exampleWorld\<lparr>osvOf := (\<lambda>n. if n \<in> {''pkg-b''} then Failed
                                      else osvOf exampleWorld n)\<rparr>)
          [''pkg-a'', ''pkg-b'', ''pkg-c''] 1 seededState = Some (Inr results', st'') \<and>
        map_of results' ''pkg-a'' = Some [cve1FromA] \<and>
        map_of results' ''pkg-b'' = Some [])"
proof -
  let ?names = "[''pkg-a'', ''pkg-b'', ''pkg-c'']"
  have pos: "(0::int) < 1" by simp
  have replies: "\<forall>n \<in> set (uncachedIn seededState ?names). \<not> nullReply exampleWorld n"
    by (simp add: uncachedIn_def seededState_def nullReply_def exampleWorld_def)
  from queryVulnerabilitiesBatch_contract [OF pos replies]
  obtain results st' where
    run: "queryVulnerabilitiesBatch exampleWorld ?names 1 seededState = Some (Inr results, st')"
    and each: "\<forall>n \<in> set ?names.
        case vulnCache seededState n of
          Some cached \<Rightarrow>
            map_of results n = Some cached \<and> vulnCache st' n = Some cached \<and>
            OsvQuery n \<notin> set (drop (length (requests seededState)) (requests st'))
        | None \<Rightarrow>
            map_of results n = Some (queried exampleWorld n) \<and>
            vulnCache st' n = Some (queried exampleWorld n) \<and>
            (osvOf exampleWorld n = Failed \<longrightarrow> queried exampleWorld n = [])"
    and reqs: "requests st' =
                 requests seededState @ map OsvQuery (uncachedIn seededState ?names)"
    and fails: "\<forall>failing. \<exists>results' st''.
        queryVulnerabilitiesBatch
          (exampleWorld\<lparr>osvOf := (\<lambda>n. if n \<in> failing then Failed
                                      else osvOf exampleWorld n)\<rparr>)
          ?names 1 seededState = Some (Inr results', st'') \<and>
        (\<forall>n \<in> set ?names.
           map_of results' n =
             (if n \<in> failing \<and> vulnCache seededState n = None then Some []
              else map_of results n))"
    by blast
  have a: "map_of results ''pkg-a'' = Some [cve1FromA]"
    using each [THEN bspec, of "''pkg-a''"] by (simp add: seededState_def)
  have b: "map_of results ''pkg-b'' = Some [cve1FromB] \<and> vulnCache st' ''pkg-b'' = Some [cve1FromB]"
    using each [THEN bspec, of "''pkg-b''"]
    by (simp add: seededState_def queried_def exampleWorld_def)
  have c: "map_of results ''pkg-c'' = Some [] \<and> vulnCache st' ''pkg-c'' = Some []"
    using each [THEN bspec, of "''pkg-c''"]
    by (simp add: seededState_def queried_def exampleWorld_def)
  have r: "requests st' = [OsvQuery ''pkg-b'', OsvQuery ''pkg-c'']"
    unfolding reqs by (simp add: seededState_def uncachedIn_def)
  have isolated: "\<exists>results' st''.
        queryVulnerabilitiesBatch
          (exampleWorld\<lparr>osvOf := (\<lambda>n. if n \<in> {''pkg-b''} then Failed
                                      else osvOf exampleWorld n)\<rparr>)
          ?names 1 seededState = Some (Inr results', st'') \<and>
        map_of results' ''pkg-a'' = Some [cve1FromA] \<and>
        map_of results' ''pkg-b'' = Some []"
  proof -
    from fails [THEN spec, of "{''pkg-b''}"] obtain results' st'' where
      run': "queryVulnerabilitiesBatch
          (exampleWorld\<lparr>osvOf := (\<lambda>n. if n \<in> {''pkg-b''} then Failed
                                      else osvOf exampleWorld n)\<rparr>)
          ?names 1 seededState = Some (Inr results', st'')"
      and each': "\<forall>n \<in> set ?names.
           map_of results' n =
             (if n \<in> {''pkg-b''} \<and> vulnCache seededState n = None then Some []
              else map_of results n)"
      by blast
    have "map_of results' ''pkg-a'' = Some [cve1FromA]"
      using each' [THEN bspec, of "''pkg-a''"] a by simp
    moreover have "map_of results' ''pkg-b'' = Some []"
      using each' [THEN bspec, of "''pkg-b''"] by (simp add: seededState_def)
    ultimately show ?thesis using run' by blast
  qed
  show ?thesis using run a b c r isolated by blast
qed

section \<open>Deduplication\<close>















section \<open>Version resolution\<close>

lemma versionLess_trans: "versionLess a b \<Longrightarrow> versionLess b c \<Longrightarrow> versionLess a c"
  by (cases a; cases b; cases c) auto

lemma versionLess_total: "\<not> versionLess a b \<Longrightarrow> versionLessEq b a"
  by (cases a; cases b) (auto simp: versionLessEq_def)

lemma versionLessEq_trans: "versionLessEq a b \<Longrightarrow> versionLessEq b c \<Longrightarrow> versionLessEq a c"
  unfolding versionLessEq_def using versionLess_trans by blast

lemma satisfies_parses: "semver_satisfies v r \<Longrightarrow> \<exists>sv. parseVersion v = Some sv"
  by (auto simp: semver_satisfies_def split: option.splits)

lemma precedes_refl: "semver_satisfies v r \<Longrightarrow> precedes v v"
  using satisfies_parses [of v r] by (auto simp: precedes_def versionLessEq_def)

lemma precedes_trans: "precedes a b \<Longrightarrow> precedes b c \<Longrightarrow> precedes a c"
  using versionLessEq_trans by (auto simp: precedes_def split: option.splits)

lemma maxSatisfyingLoop_None:
  "maxSatisfyingLoop r vs best = None \<longleftrightarrow> best = None \<and> (\<forall>v \<in> set vs. \<not> semver_satisfies v r)"
  by (induction vs arbitrary: best) auto

lemma maxSatisfyingLoop_Some:
  assumes "maxSatisfyingLoop r vs best = Some m"
    and "\<And>b. best = Some b \<Longrightarrow> semver_satisfies b r"
  shows "(best = Some m \<or> m \<in> set vs) \<and> semver_satisfies m r \<and>
         (\<forall>v \<in> set vs. semver_satisfies v r \<longrightarrow> precedes v m) \<and>
         (\<forall>b. best = Some b \<longrightarrow> precedes b m)"
  using assms
proof (induction vs arbitrary: best)
  case Nil
  then show ?case using precedes_refl by auto
next
  case (Cons v vs)
  show ?case
  proof (cases "semver_satisfies v r \<and>
         (case best of None \<Rightarrow> True
          | Some b \<Rightarrow> (case (parseVersion b, parseVersion v) of
                         (Some sm, Some sv) \<Rightarrow> versionLess sm sv | _ \<Rightarrow> False))")
    case True
    then have run: "maxSatisfyingLoop r vs (Some v) = Some m"
      using Cons.prems(1) by simp
    have sat: "semver_satisfies v r" using True by simp
    from Cons.IH [OF run] sat
    have ih: "(v = m \<or> m \<in> set vs) \<and> semver_satisfies m r \<and>
         (\<forall>u \<in> set vs. semver_satisfies u r \<longrightarrow> precedes u m) \<and> precedes v m"
      by auto
    have old: "precedes b m" if "best = Some b" for b
    proof -
      have "precedes b v"
        using True that by (auto simp: precedes_def versionLessEq_def split: option.splits)
      then show ?thesis using ih precedes_trans by blast
    qed
    show ?thesis using ih old by auto
  next
    case False
    then have run: "maxSatisfyingLoop r vs best = Some m"
      using Cons.prems(1) by auto
    from Cons.IH [OF run Cons.prems(2)]
    have ih: "(best = Some m \<or> m \<in> set vs) \<and> semver_satisfies m r \<and>
         (\<forall>u \<in> set vs. semver_satisfies u r \<longrightarrow> precedes u m) \<and>
         (\<forall>b. best = Some b \<longrightarrow> precedes b m)"
      by simp
    have "precedes v m" if sat: "semver_satisfies v r"
    proof -
      from False sat obtain b where b: "best = Some b"
        and nl: "\<not> (case (parseVersion b, parseVersion v) of
                         (Some sm, Some sv) \<Rightarrow> versionLess sm sv | _ \<Rightarrow> False)"
        by (cases best) auto
      obtain sv where sv: "parseVersion v = Some sv" using satisfies_parses [OF sat] by blast
      obtain sb where sb: "parseVersion b = Some sb"
        using satisfies_parses [OF Cons.prems(2) [OF b]] by blast
      have "versionLessEq sv sb" using nl sv sb versionLess_total by simp
      then have "precedes v b" by (simp add: precedes_def sv sb)
      then show ?thesis using ih b precedes_trans by blast
    qed
    then show ?thesis using ih by auto
  qed
qed

lemma satisfies_valid: "semver_satisfies v r \<Longrightarrow> semver_valid v"
  using satisfies_parses [of v r] by (auto simp: semver_valid_def)

text \<open>
  C3. \<open>resolveVersion\<close> fails when the constraint or the list is absent or empty. A
  constraint that is itself a valid version is returned exactly when the list contains
  it. Any other constraint gives a published, valid version that satisfies it and that no
  published valid version satisfying it exceeds, and fails exactly when no published valid
  version satisfies it. The eight examples of the specification evaluate as listed.
\<close>

theorem resolveVersion_spec:
  "resolveVersion None available = None \<and>
   resolveVersion (Some []) available = None \<and>
   resolveVersion rng None = None \<and>
   resolveVersion rng (Some []) = None \<and>
   (semver_valid r \<and> vs \<noteq> [] \<longrightarrow>
      resolveVersion (Some r) (Some vs) = (if r \<in> set vs then Some r else None)) \<and>
   (r \<noteq> [] \<and> \<not> semver_valid r \<and> vs \<noteq> [] \<longrightarrow>
      (case resolveVersion (Some r) (Some vs) of
         None \<Rightarrow> \<forall>v \<in> set vs. \<not> (semver_valid v \<and> semver_satisfies v r)
       | Some best \<Rightarrow>
           best \<in> set vs \<and> semver_valid best \<and> semver_satisfies best r \<and>
           (\<forall>v \<in> set vs. semver_valid v \<and> semver_satisfies v r \<longrightarrow> precedes v best))) \<and>
   resolveVersion (Some ''2.1.0'') (Some published9) = Some ''2.1.0'' \<and>
   resolveVersion (Some ''^4.18.0'') (Some published9) = Some ''4.18.2'' \<and>
   resolveVersion (Some ''~1.2.0'') (Some published9) = Some ''1.2.5'' \<and>
   resolveVersion (Some ''>=2.0.0'') (Some published9) = Some ''4.18.2'' \<and>
   resolveVersion (Some ''>=1.0.0 <3.0.0'') (Some published9) = Some ''2.1.0'' \<and>
   resolveVersion (Some ''^10.0.0'') (Some published9) = None \<and>
   resolveVersion (Some ''^1.0.0'') (Some []) = None \<and>
   resolveVersion None (Some published9) = None"
proof -
  have absent: "resolveVersion None available = None" "resolveVersion (Some []) available = None"
    "resolveVersion rng None = None" "resolveVersion rng (Some []) = None"
    by (auto simp: resolveVersion_def split: option.splits)
  have exact: "semver_valid r \<and> vs \<noteq> [] \<longrightarrow>
      resolveVersion (Some r) (Some vs) = (if r \<in> set vs then Some r else None)"
    by (auto simp: resolveVersion_def semver_valid_def parseVersion_def numericId_def)
  have ranged: "r \<noteq> [] \<and> \<not> semver_valid r \<and> vs \<noteq> [] \<longrightarrow>
      (case resolveVersion (Some r) (Some vs) of
         None \<Rightarrow> \<forall>v \<in> set vs. \<not> (semver_valid v \<and> semver_satisfies v r)
       | Some best \<Rightarrow>
           best \<in> set vs \<and> semver_valid best \<and> semver_satisfies best r \<and>
           (\<forall>v \<in> set vs. semver_valid v \<and> semver_satisfies v r \<longrightarrow> precedes v best))"
  proof
    assume a: "r \<noteq> [] \<and> \<not> semver_valid r \<and> vs \<noteq> []"
    then have eq: "resolveVersion (Some r) (Some vs) =
                     maxSatisfyingLoop r (filter semver_valid vs) None"
      by (simp add: resolveVersion_def semver_maxSatisfying_def)
    show "case resolveVersion (Some r) (Some vs) of
         None \<Rightarrow> \<forall>v \<in> set vs. \<not> (semver_valid v \<and> semver_satisfies v r)
       | Some best \<Rightarrow>
           best \<in> set vs \<and> semver_valid best \<and> semver_satisfies best r \<and>
           (\<forall>v \<in> set vs. semver_valid v \<and> semver_satisfies v r \<longrightarrow> precedes v best)"
    proof (cases "maxSatisfyingLoop r (filter semver_valid vs) None")
      case None
      then show ?thesis
        unfolding eq using maxSatisfyingLoop_None [of r "filter semver_valid vs" None] by auto
    next
      case (Some best)
      from maxSatisfyingLoop_Some [OF Some]
      have "best \<in> set (filter semver_valid vs) \<and> semver_satisfies best r \<and>
         (\<forall>v \<in> set (filter semver_valid vs). semver_satisfies v r \<longrightarrow> precedes v best)"
        by simp
      then show ?thesis unfolding eq Some by auto
    qed
  qed
  have examples:
    "resolveVersion (Some ''2.1.0'') (Some published9) = Some ''2.1.0''"
    "resolveVersion (Some ''^4.18.0'') (Some published9) = Some ''4.18.2''"
    "resolveVersion (Some ''~1.2.0'') (Some published9) = Some ''1.2.5''"
    "resolveVersion (Some ''>=2.0.0'') (Some published9) = Some ''4.18.2''"
    "resolveVersion (Some ''>=1.0.0 <3.0.0'') (Some published9) = Some ''2.1.0''"
    "resolveVersion (Some ''^10.0.0'') (Some published9) = None"
    by code_simp+
  have more: "resolveVersion (Some ''^1.0.0'') (Some []) = None"
    "resolveVersion None (Some published9) = None"
    by (simp_all add: resolveVersion_def)
  show ?thesis using absent exact ranged examples more by simp
qed

text \<open>
  An exact version that was never published fails; for the compound range the result
  satisfies the range and is not below \<open>2.0.0\<close>, which satisfies it too.
\<close>

theorem resolveVersion_spec_witness:
  "resolveVersion (Some ''5.0.0'') (Some published9) = None \<and>
   semver_satisfies ''2.1.0'' ''>=1.0.0 <3.0.0'' \<and>
   precedes ''2.0.0'' ''2.1.0'' \<and>
   resolveVersion (Some ''^4.18.0'') (Some published9) = Some ''4.18.2''"
proof -
  have nonempty: "published9 \<noteq> []" by (simp add: published9_def)
  have valid5: "semver_valid ''5.0.0''" by code_simp
  have absent5: "''5.0.0'' \<notin> set published9" by (simp add: published9_def)
  have rng: "''>=1.0.0 <3.0.0'' \<noteq> [] \<and> \<not> semver_valid ''>=1.0.0 <3.0.0''" by code_simp
  have v2: "''2.0.0'' \<in> set published9 \<and> semver_valid ''2.0.0'' \<and>
            semver_satisfies ''2.0.0'' ''>=1.0.0 <3.0.0''"
    unfolding published9_def by code_simp
  note exact = resolveVersion_spec [where r = "''5.0.0''" and vs = published9]
  note ranged = resolveVersion_spec [where r = "''>=1.0.0 <3.0.0''" and vs = published9]
  have "resolveVersion (Some ''5.0.0'') (Some published9) = None"
    using exact valid5 absent5 nonempty by simp
  moreover have best: "resolveVersion (Some ''>=1.0.0 <3.0.0'') (Some published9) = Some ''2.1.0''"
    using ranged by simp
  moreover have "semver_satisfies ''2.1.0'' ''>=1.0.0 <3.0.0'' \<and> precedes ''2.0.0'' ''2.1.0''"
    using ranged rng nonempty v2 unfolding best by auto
  moreover have "resolveVersion (Some ''^4.18.0'') (Some published9) = Some ''4.18.2''"
    using exact by simp
  ultimately show ?thesis by simp
qed


section \<open>The graph fallback\<close>

lemma candidates_Cons:
  "List.map_filter f (v # vs) = (case f v of None \<Rightarrow> List.map_filter f vs | Some x \<Rightarrow> x # List.map_filter f vs)"
  by (simp add: List.map_filter_simps split: option.splits)

lemma tryFallbackVersions_closed:
  "tryFallbackVersions w name vlist rv st =
     (let cands = List.map_filter
            (\<lambda>v. case versionOf v of
                   None \<Rightarrow> None
                 | Some fv \<Rightarrow> if fv \<noteq> [] \<and> fv \<noteq> rv then Some fv else None) vlist
      in case find (\<lambda>fv. graphOf w name fv \<noteq> None) cands of
           None \<Rightarrow> (None, rv, st\<lparr>requests := requests st @ map (GraphQuery name) cands\<rparr>)
         | Some fv \<Rightarrow>
             (graphOf w name fv, fv,
              st\<lparr>requests := requests st @
                    map (GraphQuery name)
                      (takeWhile (\<lambda>v. graphOf w name v = None) cands @ [fv])\<rparr>))"
proof (induction vlist arbitrary: st)
  case Nil
  show ?case by (simp add: List.map_filter_simps)
next
  case (Cons v vlist)
  show ?case
  proof (cases "versionOf v")
    case None
    then show ?thesis by (simp add: candidates_Cons Cons.IH)
  next
    case (Some fv)
    show ?thesis
    proof (cases "fv \<noteq> [] \<and> fv \<noteq> rv")
      case False
      then show ?thesis using Some by (auto simp: candidates_Cons Cons.IH)
    next
      case True
      show ?thesis
      proof (cases "graphOf w name fv")
        case None
        then show ?thesis
          using Some True
          by (simp add: candidates_Cons Cons.IH getDependencyGraph_def send_def Let_def
                split: option.splits)
      next
        case (Some g)
        then show ?thesis
          using \<open>versionOf v = Some fv\<close> True
          by (simp add: candidates_Cons getDependencyGraph_def send_def Let_def)
      qed
    qed
  qed
qed

lemma fetchGraph_closed:
  assumes "graphOf w name rv = None" "Option.bind packageInfo versions = Some vs"
  shows "fetchGraph w name packageInfo rv st =
     (let cands = fallbackCandidates (byPublishDateDesc vs) rv
      in case find (\<lambda>fv. graphOf w name fv \<noteq> None) cands of
           None \<Rightarrow>
             (None, rv,
              st\<lparr>requests := requests st @ GraphQuery name rv # map (GraphQuery name) cands\<rparr>)
         | Some fv \<Rightarrow>
             (graphOf w name fv, fv,
              st\<lparr>requests := requests st @ GraphQuery name rv #
                    map (GraphQuery name)
                      (takeWhile (\<lambda>v. graphOf w name v = None) cands @ [fv])\<rparr>))"
  using assms
  by (simp add: fetchGraph_def getDependencyGraph_def send_def tryFallbackVersions_closed
        fallbackCandidates_def Let_def split: option.splits)

lemma map_filter_mem:
  "x \<in> set (List.map_filter f xs) \<Longrightarrow> \<exists>v \<in> set xs. f v = Some x"
  by (induction xs) (auto simp: candidates_Cons split: option.splits)

lemma candidates_bound: "length (fallbackCandidates newestFirst rv) \<le> 10 \<and> rv \<notin> set (fallbackCandidates newestFirst rv)"
proof -
  have "length (List.map_filter f xs) \<le> length xs" for f :: "PackageVersion \<Rightarrow> string option" and xs
    by (simp add: List.map_filter_def)
  from this [of _ "take 10 newestFirst"]
  have "length (fallbackCandidates newestFirst rv) \<le> 10"
    unfolding fallbackCandidates_def by (rule order_trans) simp
  moreover have "rv \<notin> set (fallbackCandidates newestFirst rv)"
    unfolding fallbackCandidates_def
    by (rule notI, drule map_filter_mem) (auto split: option.splits if_splits)
  ultimately show ?thesis by simp
qed

lemma candidates_recent:
  "fv \<in> set (fallbackCandidates newestFirst rv) \<Longrightarrow>
     \<exists>v \<in> set (take 10 newestFirst). versionOf v = Some fv"
  unfolding fallbackCandidates_def
  by (drule map_filter_mem) (auto split: option.splits if_splits)

lemma byPublishDateDesc_sorted:
  "mset (byPublishDateDesc vs) = mset vs \<and>
   sorted_wrt (\<lambda>a b. timeOf b \<le> timeOf a) (byPublishDateDesc vs)"
proof -
  have "sorted (map (\<lambda>v. - timeOf v) (byPublishDateDesc vs))"
    by (simp add: byPublishDateDesc_def)
  then have "sorted_wrt (\<lambda>a b. timeOf b \<le> timeOf a) (byPublishDateDesc vs)"
    by (simp add: sorted_map)
  then show ?thesis by (simp add: byPublishDateDesc_def)
qed

lemma find_prefix:
  "find P xs = Some x \<Longrightarrow>
     P x \<and> length (takeWhile (\<lambda>y. \<not> P y) xs @ [x]) \<le> length xs \<and>
     set (takeWhile (\<lambda>y. \<not> P y) xs @ [x]) \<subseteq> set xs"
  by (induction xs) (auto split: if_splits)

lemma uniqueList_single: "uniqueList [x] = [x]"
  by (simp add: uniqueList_def setAdd_def)

lemma getTransitiveCVEMetrics_deep:
  assumes rv: "resolveStep (packageInfoOf w name) versionRange = Some rv" "rv \<noteq> []"
    and g: "fetchGraph w name (packageInfoOf w name) rv (send (PackageQuery name) st)
              = (graph, adopted, st2)"
  shows "getTransitiveCVEMetrics w metricsOf name versionRange concurrency False st =
           analysisOf w metricsOf
             (case graph of
                None \<Rightarrow> rootOnly name rv
              | Some tree \<Rightarrow> extractPackagesFromGraph (Some tree))
             concurrency st2"
proof (cases graph)
  case None
  show ?thesis
    using rv g None
    by (simp add: getTransitiveCVEMetrics_def getPackageInfo_def Let_def analysisOf_def
          rootOnly_def split: prod.splits option.splits sum.splits)
next
  case (Some tree)
  show ?thesis
    using rv g Some
    by (simp add: getTransitiveCVEMetrics_def getPackageInfo_def Let_def analysisOf_def
          split: prod.splits option.splits sum.splits)
qed

lemma analysisOf_returns:
  assumes c: "0 < concurrency"
    and r: "\<forall>n \<in> set (uniqueList (map tp_name tree)). \<not> nullReply w n"
  shows "\<exists>res st'.
           analysisOf w metricsOf tree concurrency st = Some (Inr res, st') \<and>
           packageNames res = uniqueList (map tp_name tree) \<and>
           totalPackagesInTree res = length (uniqueList (map tp_name tree)) \<and>
           transitivePackageCount res =
             length (filter (\<lambda>p. tp_relation p = ''INDIRECT'') tree) \<and>
           directPackageCount res = length (filter (\<lambda>p. tp_relation p = ''DIRECT'') tree) \<and>
           requests st' =
             requests st @ map OsvQuery (uncachedIn st (uniqueList (map tp_name tree)))"
proof -
  let ?names = "uniqueList (map tp_name tree)"
  have r': "\<forall>n \<in> set (uncachedIn st ?names). \<not> nullReply w n"
    using r by (simp add: uncachedIn_def)
  show ?thesis
    unfolding analysisOf_def queryVulnerabilitiesBatch_closed [OF c r']
    by (simp add: batch_requests)
qed

lemma analysisOf_root:
  assumes c: "0 < concurrency" and r: "\<not> nullReply w name"
  shows "analysisOf w metricsOf (rootOnly name rv) concurrency st =
           Some (Inr \<lparr>t_cveMetrics =
                        metricsOf (deduplicateVulnerabilities
                          [(name, case vulnCache st name of
                                    Some cached \<Rightarrow> cached | None \<Rightarrow> queried w name)]),
                      transitivePackageCount = 0, directPackageCount = 0,
                      totalPackagesInTree = 1, packageNames = [name]\<rparr>,
                 st\<lparr>requests := requests st @ map OsvQuery (uncachedIn st [name]),
                    vulnCache := (case vulnCache st name of
                                    Some cached \<Rightarrow> vulnCache st
                                  | None \<Rightarrow> (vulnCache st)(name \<mapsto> queried w name))\<rparr>)"
proof -
  have r': "\<forall>n \<in> set (uncachedIn st [name]). \<not> nullReply w n"
    using r by (simp add: uncachedIn_def)
  show ?thesis
    unfolding analysisOf_def rootOnly_def
    by (simp add: uniqueList_single queryVulnerabilitiesBatch_closed [OF c r']
          processNames_def cachedResults_def uncachedIn_def split: option.splits)
qed

text \<open>
  C6. Let the package have a version list, let its version range resolve to \<open>rv\<close>, and
  let the graph be unavailable for \<open>rv\<close>. Then \<open>getTransitiveCVEMetrics\<close> orders the
  versions by publish date, newest first, and after the metadata request and the graph
  request for \<open>rv\<close> sends the graph requests \<open>tried\<close>: at most ten, never \<open>rv\<close> again,
  each the version of one of the ten most recent entries, in order, up to and including
  the first that has a graph. That version is then the resolved version of the search,
  and the call is the analysis of the packages of its graph. If none has a graph, all
  candidates were tried, the resolved version is unchanged, and the call is the analysis
  of the root package alone. Where the lookups of that analysis return, the call returns
  its result, and the requests of the whole call are the metadata request, the graph
  requests and one lookup per uncached name of the tree; for the root alone the result
  holds the metrics of the findings of the root, one package name, and no direct and no
  transitive packages.
\<close>

theorem graph_fallback_protocol:
  assumes info: "packageInfoOf w name = Some info"
      and known: "versions info = Some vs"
      and resolved: "resolveStep (Some info) versionRange = Some rv"
      and nonempty: "rv \<noteq> []"
      and unavailable: "graphOf w name rv = None"
  shows "\<exists>tried tree.
      mset (byPublishDateDesc vs) = mset vs \<and>
      sorted_wrt (\<lambda>a b. timeOf b \<le> timeOf a) (byPublishDateDesc vs) \<and>
      length tried \<le> 10 \<and> rv \<notin> set tried \<and>
      (\<forall>fv \<in> set tried. \<exists>v \<in> set (take 10 (byPublishDateDesc vs)). versionOf v = Some fv) \<and>
      (case find (\<lambda>fv. graphOf w name fv \<noteq> None)
              (fallbackCandidates (byPublishDateDesc vs) rv) of
         Some fv \<Rightarrow>
           tried = takeWhile (\<lambda>v. graphOf w name v = None)
                     (fallbackCandidates (byPublishDateDesc vs) rv) @ [fv] \<and>
           graphOf w name fv \<noteq> None \<and>
           fetchGraph w name (Some info) rv (send (PackageQuery name) st) =
             (graphOf w name fv, fv, afterGraphRequests st name rv tried) \<and>
           tree = extractPackagesFromGraph (graphOf w name fv)
       | None \<Rightarrow>
           tried = fallbackCandidates (byPublishDateDesc vs) rv \<and>
           fetchGraph w name (Some info) rv (send (PackageQuery name) st) =
             (None, rv, afterGraphRequests st name rv tried) \<and>
           tree = rootOnly name rv) \<and>
      getTransitiveCVEMetrics w metricsOf name versionRange concurrency False st =
        analysisOf w metricsOf tree concurrency (afterGraphRequests st name rv tried) \<and>
      (0 < concurrency \<and> (\<forall>n \<in> set (uniqueList (map tp_name tree)). \<not> nullReply w n) \<longrightarrow>
         (\<exists>res st'.
            getTransitiveCVEMetrics w metricsOf name versionRange concurrency False st
              = Some (Inr res, st') \<and>
            packageNames res = uniqueList (map tp_name tree) \<and>
            totalPackagesInTree res = length (uniqueList (map tp_name tree)) \<and>
            transitivePackageCount res =
              length (filter (\<lambda>p. tp_relation p = ''INDIRECT'') tree) \<and>
            directPackageCount res =
              length (filter (\<lambda>p. tp_relation p = ''DIRECT'') tree) \<and>
            requests st' =
              requests st @ PackageQuery name # GraphQuery name rv #
                map (GraphQuery name) tried @
                map OsvQuery (uncachedIn st (uniqueList (map tp_name tree))) \<and>
            (find (\<lambda>fv. graphOf w name fv \<noteq> None)
               (fallbackCandidates (byPublishDateDesc vs) rv) = None \<longrightarrow>
               res = \<lparr>t_cveMetrics =
                        metricsOf (deduplicateVulnerabilities
                          [(name, case vulnCache st name of
                                    Some cached \<Rightarrow> cached | None \<Rightarrow> queried w name)]),
                      transitivePackageCount = 0, directPackageCount = 0,
                      totalPackagesInTree = 1, packageNames = [name]\<rparr>)))"
proof -
  let ?cands = "fallbackCandidates (byPublishDateDesc vs) rv"
  let ?ok = "\<lambda>fv. graphOf w name fv \<noteq> None"
  define tried where
    "tried = (case find ?ok ?cands of
                None \<Rightarrow> ?cands
              | Some fv \<Rightarrow> takeWhile (\<lambda>v. graphOf w name v = None) ?cands @ [fv])"
  define graph where
    "graph = (case find ?ok ?cands of None \<Rightarrow> None | Some fv \<Rightarrow> graphOf w name fv)"
  define adopted where
    "adopted = (case find ?ok ?cands of None \<Rightarrow> rv | Some fv \<Rightarrow> fv)"
  define tree where
    "tree = (case graph of
               None \<Rightarrow> rootOnly name rv
             | Some g \<Rightarrow> extractPackagesFromGraph (Some g))"
  let ?after = "afterGraphRequests st name rv tried"
  have known': "Option.bind (Some info) versions = Some vs" using known by simp
  have closed: "fetchGraph w name (Some info) rv (send (PackageQuery name) st) =
                  (graph, adopted, ?after)"
    unfolding fetchGraph_closed [OF unavailable known'] tried_def graph_def adopted_def
      afterGraphRequests_def
    by (simp add: Let_def send_def split: option.splits)
  have sub: "set tried \<subseteq> set ?cands \<and> length tried \<le> length ?cands"
  proof (cases "find ?ok ?cands")
    case None
    show ?thesis unfolding tried_def None by simp
  next
    case (Some fv)
    have t: "tried = takeWhile (\<lambda>v. graphOf w name v = None) ?cands @ [fv]"
      unfolding tried_def Some by simp
    from find_prefix [OF Some] show ?thesis unfolding t by simp
  qed
  have len: "length tried \<le> 10" and notrv: "rv \<notin> set tried"
    using sub candidates_bound [of "byPublishDateDesc vs" rv] by auto
  have recent: "\<forall>fv \<in> set tried.
      \<exists>v \<in> set (take 10 (byPublishDateDesc vs)). versionOf v = Some fv"
    using sub candidates_recent [of _ "byPublishDateDesc vs" rv] by blast
  have outcome: "case find ?ok ?cands of
         Some fv \<Rightarrow>
           tried = takeWhile (\<lambda>v. graphOf w name v = None) ?cands @ [fv] \<and>
           graphOf w name fv \<noteq> None \<and>
           fetchGraph w name (Some info) rv (send (PackageQuery name) st) =
             (graphOf w name fv, fv, ?after) \<and>
           tree = extractPackagesFromGraph (graphOf w name fv)
       | None \<Rightarrow>
           tried = ?cands \<and>
           fetchGraph w name (Some info) rv (send (PackageQuery name) st) =
             (None, rv, ?after) \<and>
           tree = rootOnly name rv"
  proof (cases "find ?ok ?cands")
    case None
    have "graph = None" "adopted = rv" "tried = ?cands"
      unfolding graph_def adopted_def tried_def None by simp_all
    then show ?thesis
      using closed unfolding None by (simp add: tree_def)
  next
    case (Some fv)
    from find_prefix [OF Some] have ok: "graphOf w name fv \<noteq> None" by simp
    have "graph = graphOf w name fv" "adopted = fv"
      "tried = takeWhile (\<lambda>v. graphOf w name v = None) ?cands @ [fv]"
      unfolding graph_def adopted_def tried_def Some by simp_all
    then show ?thesis
      using closed ok unfolding Some by (auto simp: tree_def)
  qed
  have deep: "getTransitiveCVEMetrics w metricsOf name versionRange concurrency False st =
                analysisOf w metricsOf tree concurrency ?after"
    unfolding tree_def
    by (rule getTransitiveCVEMetrics_deep) (simp_all add: info resolved nonempty closed)
  have returns: "0 < concurrency \<and> (\<forall>n \<in> set (uniqueList (map tp_name tree)). \<not> nullReply w n) \<longrightarrow>
         (\<exists>res st'.
            getTransitiveCVEMetrics w metricsOf name versionRange concurrency False st
              = Some (Inr res, st') \<and>
            packageNames res = uniqueList (map tp_name tree) \<and>
            totalPackagesInTree res = length (uniqueList (map tp_name tree)) \<and>
            transitivePackageCount res =
              length (filter (\<lambda>p. tp_relation p = ''INDIRECT'') tree) \<and>
            directPackageCount res =
              length (filter (\<lambda>p. tp_relation p = ''DIRECT'') tree) \<and>
            requests st' =
              requests st @ PackageQuery name # GraphQuery name rv #
                map (GraphQuery name) tried @
                map OsvQuery (uncachedIn st (uniqueList (map tp_name tree))) \<and>
            (find ?ok ?cands = None \<longrightarrow>
               res = \<lparr>t_cveMetrics =
                        metricsOf (deduplicateVulnerabilities
                          [(name, case vulnCache st name of
                                    Some cached \<Rightarrow> cached | None \<Rightarrow> queried w name)]),
                      transitivePackageCount = 0, directPackageCount = 0,
                      totalPackagesInTree = 1, packageNames = [name]\<rparr>))"
  proof
    assume a: "0 < concurrency \<and> (\<forall>n \<in> set (uniqueList (map tp_name tree)). \<not> nullReply w n)"
    then have c: "0 < concurrency"
      and r: "\<forall>n \<in> set (uniqueList (map tp_name tree)). \<not> nullReply w n" by simp_all
    from analysisOf_returns [OF c r, of metricsOf ?after] obtain res st' where
      run: "analysisOf w metricsOf tree concurrency ?after = Some (Inr res, st')"
      and names: "packageNames res = uniqueList (map tp_name tree)"
      and total: "totalPackagesInTree res = length (uniqueList (map tp_name tree))"
      and indirect: "transitivePackageCount res =
                       length (filter (\<lambda>p. tp_relation p = ''INDIRECT'') tree)"
      and direct: "directPackageCount res =
                     length (filter (\<lambda>p. tp_relation p = ''DIRECT'') tree)"
      and reqs: "requests st' =
                   requests ?after @ map OsvQuery (uncachedIn ?after (uniqueList (map tp_name tree)))"
      by blast
    have same_cache: "uncachedIn ?after ns = uncachedIn st ns" for ns
      by (simp add: uncachedIn_def afterGraphRequests_def)
    have reqs': "requests st' =
              requests st @ PackageQuery name # GraphQuery name rv #
                map (GraphQuery name) tried @
                map OsvQuery (uncachedIn st (uniqueList (map tp_name tree)))"
      unfolding reqs same_cache by (simp add: afterGraphRequests_def)
    have root: "find ?ok ?cands = None \<longrightarrow>
               res = \<lparr>t_cveMetrics =
                        metricsOf (deduplicateVulnerabilities
                          [(name, case vulnCache st name of
                                    Some cached \<Rightarrow> cached | None \<Rightarrow> queried w name)]),
                      transitivePackageCount = 0, directPackageCount = 0,
                      totalPackagesInTree = 1, packageNames = [name]\<rparr>"
    proof
      assume none: "find ?ok ?cands = None"
      then have t: "tree = rootOnly name rv" unfolding tree_def graph_def by simp
      have "\<not> nullReply w name"
        using r unfolding t by (simp add: rootOnly_def uniqueList_single)
      from analysisOf_root [OF c this, of metricsOf rv ?after] run
      show "res = \<lparr>t_cveMetrics =
                        metricsOf (deduplicateVulnerabilities
                          [(name, case vulnCache st name of
                                    Some cached \<Rightarrow> cached | None \<Rightarrow> queried w name)]),
                      transitivePackageCount = 0, directPackageCount = 0,
                      totalPackagesInTree = 1, packageNames = [name]\<rparr>"
        unfolding t by (simp add: afterGraphRequests_def)
    qed
    show "\<exists>res st'.
            getTransitiveCVEMetrics w metricsOf name versionRange concurrency False st
              = Some (Inr res, st') \<and>
            packageNames res = uniqueList (map tp_name tree) \<and>
            totalPackagesInTree res = length (uniqueList (map tp_name tree)) \<and>
            transitivePackageCount res =
              length (filter (\<lambda>p. tp_relation p = ''INDIRECT'') tree) \<and>
            directPackageCount res =
              length (filter (\<lambda>p. tp_relation p = ''DIRECT'') tree) \<and>
            requests st' =
              requests st @ PackageQuery name # GraphQuery name rv #
                map (GraphQuery name) tried @
                map OsvQuery (uncachedIn st (uniqueList (map tp_name tree))) \<and>
            (find ?ok ?cands = None \<longrightarrow>
               res = \<lparr>t_cveMetrics =
                        metricsOf (deduplicateVulnerabilities
                          [(name, case vulnCache st name of
                                    Some cached \<Rightarrow> cached | None \<Rightarrow> queried w name)]),
                      transitivePackageCount = 0, directPackageCount = 0,
                      totalPackagesInTree = 1, packageNames = [name]\<rparr>)"
      unfolding deep
      by (rule exI [of _ res], rule exI [of _ st'])
         (intro conjI run names total indirect direct reqs' root)
  qed
  show ?thesis
    using byPublishDateDesc_sorted [of vs] len notrv recent outcome deep returns
    by (intro exI [of _ tried] exI [of _ tree]) simp
qed

lemma lib_sorted:
  "byPublishDateDesc libVersions = [release ''3.0.0'' 3000, release ''2.0.0'' 2000, release ''1.0.0'' 1000]"
  by (simp add: byPublishDateDesc_def libVersions_def timeOf_def release_def)

lemma lib_candidates:
  "fallbackCandidates (byPublishDateDesc libVersions) ''2.0.0'' = [''3.0.0'', ''1.0.0'']"
  unfolding lib_sorted
  by (simp add: fallbackCandidates_def List.map_filter_simps versionOf_def release_def)

lemma lib_resolved: "resolveStep (Some libInfo) (Some ''2.0.0'') = Some ''2.0.0''"
  by (simp add: resolveStep_def libInfo_def libVersions_def List.map_filter_simps versionOf_def
        release_def truthy_def resolveVersion_def semver_valid_def parseVersion_def
        numericId_def digitOf_def)

lemma lib_tree:
  "uniqueList (map tp_name (extractPackagesFromGraph (Some libGraph))) = [''lib'', ''dep'']"
  by (simp add: extractPackagesFromGraph_def libGraph_def nodeKey_def uniqueList_def setAdd_def)


lemma lib_tree_packages:
  "extractPackagesFromGraph (Some libGraph) =
     [\<lparr>tp_name = ''lib'', tp_version = Some ''1.0.0'', tp_relation = ''SELF''\<rparr>,
      \<lparr>tp_name = ''dep'', tp_version = Some ''0.1.0'', tp_relation = ''DIRECT''\<rparr>]"
  by (simp add: extractPackagesFromGraph_def libGraph_def nodeKey_def)

text \<open>
  \<open>lib\<close> resolved to \<open>2.0.0\<close>: no graph for it, none for the newest \<open>3.0.0\<close>, one for
  \<open>1.0.0\<close>, which is adopted; the tree analysed is that graph's, and both of its packages
  are looked up. Where no release has a graph, both candidates are tried and the root
  package alone is looked up.
\<close>

theorem graph_fallback_protocol_witness:
  "(\<exists>res st'.
      fetchGraph fallbackWorld ''lib'' (Some libInfo) ''2.0.0''
          (send (PackageQuery ''lib'') freshState) =
        (Some libGraph, ''1.0.0'',
         afterGraphRequests freshState ''lib'' ''2.0.0'' [''3.0.0'', ''1.0.0'']) \<and>
      getTransitiveCVEMetrics fallbackWorld (\<lambda>_. noFindings) ''lib'' (Some ''2.0.0'') 5 False
        freshState = Some (Inr res, st') \<and>
      packageNames res = [''lib'', ''dep''] \<and> directPackageCount res = 1 \<and>
      requests st' =
        [PackageQuery ''lib'', GraphQuery ''lib'' ''2.0.0'', GraphQuery ''lib'' ''3.0.0'',
         GraphQuery ''lib'' ''1.0.0'', OsvQuery ''lib'', OsvQuery ''dep'']) \<and>
   (\<exists>st'.
      getTransitiveCVEMetrics graphlessWorld (\<lambda>_. noFindings) ''lib'' (Some ''2.0.0'') 5 False
        freshState =
        Some (Inr \<lparr>t_cveMetrics = noFindings, transitivePackageCount = 0,
                   directPackageCount = 0, totalPackagesInTree = 1,
                   packageNames = [''lib'']\<rparr>, st') \<and>
      requests st' =
        [PackageQuery ''lib'', GraphQuery ''lib'' ''2.0.0'', GraphQuery ''lib'' ''3.0.0'',
         GraphQuery ''lib'' ''1.0.0'', OsvQuery ''lib''])"
proof -
  have known: "versions libInfo = Some libVersions" by (simp add: libInfo_def)
  have nonempty: "''2.0.0'' \<noteq> []" by simp
  have adopted: "\<exists>res st'.
      fetchGraph fallbackWorld ''lib'' (Some libInfo) ''2.0.0''
          (send (PackageQuery ''lib'') freshState) =
        (Some libGraph, ''1.0.0'',
         afterGraphRequests freshState ''lib'' ''2.0.0'' [''3.0.0'', ''1.0.0'']) \<and>
      getTransitiveCVEMetrics fallbackWorld (\<lambda>_. noFindings) ''lib'' (Some ''2.0.0'') 5 False
        freshState = Some (Inr res, st') \<and>
      packageNames res = [''lib'', ''dep''] \<and> directPackageCount res = 1 \<and>
      requests st' =
        [PackageQuery ''lib'', GraphQuery ''lib'' ''2.0.0'', GraphQuery ''lib'' ''3.0.0'',
         GraphQuery ''lib'' ''1.0.0'', OsvQuery ''lib'', OsvQuery ''dep'']"
  proof -
    have info: "packageInfoOf fallbackWorld ''lib'' = Some libInfo"
      by (simp add: fallbackWorld_def)
    have unavailable: "graphOf fallbackWorld ''lib'' ''2.0.0'' = None"
      by (simp add: fallbackWorld_def)
    have found: "find (\<lambda>fv. graphOf fallbackWorld ''lib'' fv \<noteq> None)
                   (fallbackCandidates (byPublishDateDesc libVersions) ''2.0.0'') = Some ''1.0.0''"
      unfolding lib_candidates by (simp add: fallbackWorld_def)
    from graph_fallback_protocol [OF info known lib_resolved nonempty unavailable,
           where st = freshState and concurrency = 5 and metricsOf = "\<lambda>_. noFindings"]
    obtain tried tree where
      outcome: "case find (\<lambda>fv. graphOf fallbackWorld ''lib'' fv \<noteq> None)
              (fallbackCandidates (byPublishDateDesc libVersions) ''2.0.0'') of
         Some fv \<Rightarrow>
           tried = takeWhile (\<lambda>v. graphOf fallbackWorld ''lib'' v = None)
                     (fallbackCandidates (byPublishDateDesc libVersions) ''2.0.0'') @ [fv] \<and>
           graphOf fallbackWorld ''lib'' fv \<noteq> None \<and>
           fetchGraph fallbackWorld ''lib'' (Some libInfo) ''2.0.0''
               (send (PackageQuery ''lib'') freshState) =
             (graphOf fallbackWorld ''lib'' fv, fv,
              afterGraphRequests freshState ''lib'' ''2.0.0'' tried) \<and>
           tree = extractPackagesFromGraph (graphOf fallbackWorld ''lib'' fv)
       | None \<Rightarrow>
           tried = fallbackCandidates (byPublishDateDesc libVersions) ''2.0.0'' \<and>
           fetchGraph fallbackWorld ''lib'' (Some libInfo) ''2.0.0''
               (send (PackageQuery ''lib'') freshState) =
             (None, ''2.0.0'', afterGraphRequests freshState ''lib'' ''2.0.0'' tried) \<and>
           tree = rootOnly ''lib'' ''2.0.0''"
      and returns: "0 < (5::int) \<and>
          (\<forall>n \<in> set (uniqueList (map tp_name tree)). \<not> nullReply fallbackWorld n) \<longrightarrow>
         (\<exists>res st'.
            getTransitiveCVEMetrics fallbackWorld (\<lambda>_. noFindings) ''lib'' (Some ''2.0.0'') 5
              False freshState = Some (Inr res, st') \<and>
            packageNames res = uniqueList (map tp_name tree) \<and>
            totalPackagesInTree res = length (uniqueList (map tp_name tree)) \<and>
            transitivePackageCount res =
              length (filter (\<lambda>p. tp_relation p = ''INDIRECT'') tree) \<and>
            directPackageCount res =
              length (filter (\<lambda>p. tp_relation p = ''DIRECT'') tree) \<and>
            requests st' =
              requests freshState @ PackageQuery ''lib'' # GraphQuery ''lib'' ''2.0.0'' #
                map (GraphQuery ''lib'') tried @
                map OsvQuery (uncachedIn freshState (uniqueList (map tp_name tree))) \<and>
            (find (\<lambda>fv. graphOf fallbackWorld ''lib'' fv \<noteq> None)
               (fallbackCandidates (byPublishDateDesc libVersions) ''2.0.0'') = None \<longrightarrow>
               res = \<lparr>t_cveMetrics = noFindings,
                      transitivePackageCount = 0, directPackageCount = 0,
                      totalPackagesInTree = 1, packageNames = [''lib'']\<rparr>))"
      by (elim exE conjE) (rule that; assumption)
    have graph: "graphOf fallbackWorld ''lib'' ''1.0.0'' = Some libGraph"
      by (simp add: fallbackWorld_def)
    from outcome have
      tried: "tried = [''3.0.0'', ''1.0.0'']"
      and run: "fetchGraph fallbackWorld ''lib'' (Some libInfo) ''2.0.0''
                  (send (PackageQuery ''lib'') freshState) =
                (Some libGraph, ''1.0.0'',
                 afterGraphRequests freshState ''lib'' ''2.0.0'' [''3.0.0'', ''1.0.0''])"
      and tree: "tree = extractPackagesFromGraph (Some libGraph)"
      unfolding found lib_candidates graph by (simp_all add: fallbackWorld_def)
    have names: "uniqueList (map tp_name tree) = [''lib'', ''dep'']"
      unfolding tree by (rule lib_tree)
    have pre: "0 < (5::int) \<and>
          (\<forall>n \<in> set (uniqueList (map tp_name tree)). \<not> nullReply fallbackWorld n)"
      by (simp add: nullReply_def fallbackWorld_def)
    from returns pre obtain res st' where
      deep: "getTransitiveCVEMetrics fallbackWorld (\<lambda>_. noFindings) ''lib'' (Some ''2.0.0'') 5
              False freshState = Some (Inr res, st')"
      and n: "packageNames res = uniqueList (map tp_name tree)"
      and d: "directPackageCount res =
              length (filter (\<lambda>p. tp_relation p = ''DIRECT'') tree)"
      and r: "requests st' =
              requests freshState @ PackageQuery ''lib'' # GraphQuery ''lib'' ''2.0.0'' #
                map (GraphQuery ''lib'') tried @
                map OsvQuery (uncachedIn freshState (uniqueList (map tp_name tree)))"
      by blast
    have n': "packageNames res = [''lib'', ''dep'']" using n names by simp
    have d': "directPackageCount res = 1"
      unfolding d tree lib_tree_packages by simp
    have r': "requests st' =
        [PackageQuery ''lib'', GraphQuery ''lib'' ''2.0.0'', GraphQuery ''lib'' ''3.0.0'',
         GraphQuery ''lib'' ''1.0.0'', OsvQuery ''lib'', OsvQuery ''dep'']"
      unfolding r names tried by (simp add: freshState_def uncachedIn_def)
    show ?thesis
      by (rule exI [of _ res], rule exI [of _ st']) (intro conjI run deep n' d' r')
  qed
  have degraded: "\<exists>st'.
      getTransitiveCVEMetrics graphlessWorld (\<lambda>_. noFindings) ''lib'' (Some ''2.0.0'') 5 False
        freshState =
        Some (Inr \<lparr>t_cveMetrics = noFindings, transitivePackageCount = 0,
                   directPackageCount = 0, totalPackagesInTree = 1,
                   packageNames = [''lib'']\<rparr>, st') \<and>
      requests st' =
        [PackageQuery ''lib'', GraphQuery ''lib'' ''2.0.0'', GraphQuery ''lib'' ''3.0.0'',
         GraphQuery ''lib'' ''1.0.0'', OsvQuery ''lib'']"
  proof -
    have info: "packageInfoOf graphlessWorld ''lib'' = Some libInfo"
      by (simp add: graphlessWorld_def fallbackWorld_def)
    have unavailable: "graphOf graphlessWorld ''lib'' ''2.0.0'' = None"
      by (simp add: graphlessWorld_def)
    have none: "find (\<lambda>fv. graphOf graphlessWorld ''lib'' fv \<noteq> None)
                  (fallbackCandidates (byPublishDateDesc libVersions) ''2.0.0'') = None"
      unfolding lib_candidates by (simp add: graphlessWorld_def)
    from graph_fallback_protocol [OF info known lib_resolved nonempty unavailable,
           where st = freshState and concurrency = 5 and metricsOf = "\<lambda>_. noFindings"]
    obtain tried tree where
      outcome: "case find (\<lambda>fv. graphOf graphlessWorld ''lib'' fv \<noteq> None)
              (fallbackCandidates (byPublishDateDesc libVersions) ''2.0.0'') of
         Some fv \<Rightarrow>
           tried = takeWhile (\<lambda>v. graphOf graphlessWorld ''lib'' v = None)
                     (fallbackCandidates (byPublishDateDesc libVersions) ''2.0.0'') @ [fv] \<and>
           graphOf graphlessWorld ''lib'' fv \<noteq> None \<and>
           fetchGraph graphlessWorld ''lib'' (Some libInfo) ''2.0.0''
               (send (PackageQuery ''lib'') freshState) =
             (graphOf graphlessWorld ''lib'' fv, fv,
              afterGraphRequests freshState ''lib'' ''2.0.0'' tried) \<and>
           tree = extractPackagesFromGraph (graphOf graphlessWorld ''lib'' fv)
       | None \<Rightarrow>
           tried = fallbackCandidates (byPublishDateDesc libVersions) ''2.0.0'' \<and>
           fetchGraph graphlessWorld ''lib'' (Some libInfo) ''2.0.0''
               (send (PackageQuery ''lib'') freshState) =
             (None, ''2.0.0'', afterGraphRequests freshState ''lib'' ''2.0.0'' tried) \<and>
           tree = rootOnly ''lib'' ''2.0.0''"
      and returns: "0 < (5::int) \<and>
          (\<forall>n \<in> set (uniqueList (map tp_name tree)). \<not> nullReply graphlessWorld n) \<longrightarrow>
         (\<exists>res st'.
            getTransitiveCVEMetrics graphlessWorld (\<lambda>_. noFindings) ''lib'' (Some ''2.0.0'') 5
              False freshState = Some (Inr res, st') \<and>
            packageNames res = uniqueList (map tp_name tree) \<and>
            totalPackagesInTree res = length (uniqueList (map tp_name tree)) \<and>
            transitivePackageCount res =
              length (filter (\<lambda>p. tp_relation p = ''INDIRECT'') tree) \<and>
            directPackageCount res =
              length (filter (\<lambda>p. tp_relation p = ''DIRECT'') tree) \<and>
            requests st' =
              requests freshState @ PackageQuery ''lib'' # GraphQuery ''lib'' ''2.0.0'' #
                map (GraphQuery ''lib'') tried @
                map OsvQuery (uncachedIn freshState (uniqueList (map tp_name tree))) \<and>
            (find (\<lambda>fv. graphOf graphlessWorld ''lib'' fv \<noteq> None)
               (fallbackCandidates (byPublishDateDesc libVersions) ''2.0.0'') = None \<longrightarrow>
               res = \<lparr>t_cveMetrics = noFindings,
                      transitivePackageCount = 0, directPackageCount = 0,
                      totalPackagesInTree = 1, packageNames = [''lib'']\<rparr>))"
      by (elim exE conjE) (rule that; assumption)
    from outcome [unfolded none] have
      tried: "tried = [''3.0.0'', ''1.0.0'']" and tree: "tree = rootOnly ''lib'' ''2.0.0''"
      unfolding lib_candidates by simp_all
    have names: "uniqueList (map tp_name tree) = [''lib'']"
      unfolding tree by (simp add: rootOnly_def uniqueList_single)
    have pre: "0 < (5::int) \<and>
          (\<forall>n \<in> set (uniqueList (map tp_name tree)). \<not> nullReply graphlessWorld n)"
      by (simp add: nullReply_def graphlessWorld_def fallbackWorld_def)
    from returns pre none obtain res st' where
      deep: "getTransitiveCVEMetrics graphlessWorld (\<lambda>_. noFindings) ''lib'' (Some ''2.0.0'') 5
              False freshState = Some (Inr res, st')"
      and r: "requests st' =
              requests freshState @ PackageQuery ''lib'' # GraphQuery ''lib'' ''2.0.0'' #
                map (GraphQuery ''lib'') tried @
                map OsvQuery (uncachedIn freshState (uniqueList (map tp_name tree)))"
      and root: "res = \<lparr>t_cveMetrics = noFindings, transitivePackageCount = 0,
                        directPackageCount = 0, totalPackagesInTree = 1,
                        packageNames = [''lib'']\<rparr>"
      by auto
    have r': "requests st' =
        [PackageQuery ''lib'', GraphQuery ''lib'' ''2.0.0'', GraphQuery ''lib'' ''3.0.0'',
         GraphQuery ''lib'' ''1.0.0'', OsvQuery ''lib'']"
      unfolding r names tried by (simp add: freshState_def uncachedIn_def)
    show ?thesis
      using deep r' unfolding root by (intro exI [of _ st']) simp
  qed
  show ?thesis using adopted degraded by (rule conjI)
qed

section \<open>Scores of the engine\<close>

lemma lag_range:
  "0 \<le> calculateTechnicalLagScore cm mm \<and> calculateTechnicalLagScore cm mm \<le> 100"
  unfolding calculateTechnicalLagScore_def Let_def by (rule clamp100_range)

lemma maintenance_score_range:
  "\<exists>x. m_score (calculateMaintenanceMetrics now info) = Some x \<and> 0 \<le> x \<and> x \<le> 100"
  unfolding calculateMaintenanceMetrics_def Let_def
  by (simp add: clamp100_range split: option.split)

lemma complexity_score_range:
  "\<exists>y. c_score (calculateComplexityMetrics vi ov) = Some y \<and> 0 \<le> y \<and> y \<le> 100"
  unfolding calculateComplexityMetrics_def Let_def
  by (simp add: clamp100_range split: option.split)

lemma falsy_or_50_range:
  "(\<And>x. v = Some x \<Longrightarrow> 0 \<le> x \<and> x \<le> 100) \<Longrightarrow>
     0 \<le> falsy_or v (50::int) \<and> falsy_or v 50 \<le> 100"
  by (cases v) (auto simp: falsy_or_def)

lemma js_mul_bounds:
  assumes "0 \<le> x" "x \<le> bound" "0 \<le> w"
  shows "0 \<le> js_mul x w \<and> js_mul x w \<le> toDouble (bound * w)"
proof -
  have "0 \<le> x * w" using assms by simp
  moreover have "x * w \<le> bound * w" using assms by (simp add: mult_right_mono)
  ultimately show ?thesis
    unfolding js_mul_def using toDouble_nonneg toDouble_mono by blast
qed

lemma js_add_bounds:
  assumes "0 \<le> p \<and> p \<le> boundp" "0 \<le> q \<and> q \<le> boundq"
  shows "0 \<le> js_add p q \<and> js_add p q \<le> toDouble (boundp + boundq)"
proof -
  have "0 \<le> p + q" using assms by simp
  moreover have "p + q \<le> boundp + boundq" using assms by simp
  ultimately show ?thesis
    unfolding js_add_def using toDouble_nonneg toDouble_mono by blast
qed

lemma full_marks:
  "toDouble (100 * W_historicalCVEs) = 50" "toDouble (100 * W_maintenance) = 10"
  "toDouble (100 * W_complexity) = 15" "toDouble (100 * W_technicalLag) = 15"
  "toDouble (50 * W_communitySignals) = 5"
  "toDouble (50 + 10) = 60" "toDouble (60 + 15) = 75" "toDouble (75 + 15) = 90"
  "toDouble (90 + 5) = 95"
  by (simp_all add: weights double_eval)

lemma weighted_round_range:
  fixes a b c d :: int
  assumes "0 \<le> a" "a \<le> 100" "0 \<le> b" "b \<le> 100" "0 \<le> c" "c \<le> 100" "0 \<le> d" "d \<le> 100"
  shows "0 \<le> weightedTotal a b c d 50 \<and> weightedTotal a b c d 50 \<le> 100"
proof -
  let ?p1 = "js_mul (of_int a) W_historicalCVEs" and ?p2 = "js_mul (of_int b) W_maintenance"
  let ?p3 = "js_mul (of_int c) W_complexity" and ?p4 = "js_mul (of_int d) W_technicalLag"
  let ?p5 = "js_mul (of_int 50) W_communitySignals"
  have p1: "0 \<le> ?p1 \<and> ?p1 \<le> 50"
    using js_mul_bounds [of "of_int a" 100 W_historicalCVEs] assms
    unfolding full_marks by (simp add: weights)
  have p2: "0 \<le> ?p2 \<and> ?p2 \<le> 10"
    using js_mul_bounds [of "of_int b" 100 W_maintenance] assms
    unfolding full_marks by (simp add: weights)
  have p3: "0 \<le> ?p3 \<and> ?p3 \<le> 15"
    using js_mul_bounds [of "of_int c" 100 W_complexity] assms
    unfolding full_marks by (simp add: weights)
  have p4: "0 \<le> ?p4 \<and> ?p4 \<le> 15"
    using js_mul_bounds [of "of_int d" 100 W_technicalLag] assms
    unfolding full_marks by (simp add: weights)
  have p5: "0 \<le> ?p5 \<and> ?p5 \<le> 5"
    using js_mul_bounds [of "of_int 50" 50 W_communitySignals]
    unfolding full_marks by (simp add: weights)
  have s2: "0 \<le> js_add ?p1 ?p2 \<and> js_add ?p1 ?p2 \<le> 60"
    using js_add_bounds [OF p1 p2] unfolding full_marks .
  have s3: "0 \<le> js_add (js_add ?p1 ?p2) ?p3 \<and> js_add (js_add ?p1 ?p2) ?p3 \<le> 75"
    using js_add_bounds [OF s2 p3] unfolding full_marks .
  have s4: "0 \<le> js_add (js_add (js_add ?p1 ?p2) ?p3) ?p4 \<and>
            js_add (js_add (js_add ?p1 ?p2) ?p3) ?p4 \<le> 90"
    using js_add_bounds [OF s3 p4] unfolding full_marks .
  have s5: "0 \<le> js_add (js_add (js_add (js_add ?p1 ?p2) ?p3) ?p4) ?p5 \<and>
            js_add (js_add (js_add (js_add ?p1 ?p2) ?p3) ?p4) ?p5 \<le> 95"
    using js_add_bounds [OF s4 p5] unfolding full_marks .
  have "0 \<le> Math_round q \<and> Math_round q \<le> 100" if "0 \<le> q \<and> q \<le> 95" for q
  proof -
    have "\<lfloor>q + 1 / 2\<rfloor> \<le> \<lfloor>95 + 1 / 2 :: rat\<rfloor>"
      using that by (intro floor_mono) simp
    moreover have "0 \<le> \<lfloor>q + 1 / 2\<rfloor>" using that by simp
    ultimately show ?thesis by (simp add: Math_round_def)
  qed
  from this [OF s5] show ?thesis unfolding weightedTotal_def .
qed

lemma getPackageMetrics_built:
  "getPackageMetrics w now name version st = (Inr pm, st') \<Longrightarrow>
     \<exists>info vi. maintenance pm = Some (calculateMaintenanceMetrics now info) \<and>
               complexity pm = Some (calculateComplexityMetrics vi noOverrides)"
  by (auto simp: getPackageMetrics_def Let_def getPackageInfo_def getVersionInfo_def
        split: option.splits list.splits if_splits prod.splits)

lemma analyzePackage_built:
  assumes "analyzePackage w metricsOf now name version concurrency shallow st = Some (r, st')"
    and "score r = Some s"
  shows "\<exists>cm pm info c vi.
           s = calculateCompositeScore cm pm \<and> packageMetrics r = Some pm \<and>
           maintenance pm = Some (calculateMaintenanceMetrics now info) \<and>
           complexity pm = Some c \<and>
           c_score c = c_score (calculateComplexityMetrics vi noOverrides)"
proof -
  from assms obtain tr st1 fetched st2 where
    t: "getTransitiveCVEMetrics w metricsOf name version concurrency shallow st
          = Some (Inr tr, st1)"
    and f: "getPackageMetrics w now name version st1 = (Inr fetched, st2)"
    by (auto simp: analyzePackage_def split: option.splits prod.splits sum.splits)
  from getPackageMetrics_built [OF f] obtain info vi where
    m: "maintenance fetched = Some (calculateMaintenanceMetrics now info)"
    and c: "complexity fetched = Some (calculateComplexityMetrics vi noOverrides)"
    by blast
  show ?thesis
    using assms t f m c
    by (auto simp: analyzePackage_def Let_def split: if_splits)
qed

lemma composite_fields:
  "f_score (historicalCVEs (breakdown (calculateCompositeScore cm pm))) =
     calculateCVEScore (Some cm)"
  "f_score (maintenanceHealth (breakdown (calculateCompositeScore cm pm))) =
     falsy_or (Option.bind (maintenance pm) m_score) 50"
  "f_score (dependencyComplexity (breakdown (calculateCompositeScore cm pm))) =
     falsy_or (Option.bind (complexity pm) c_score) 50"
  "f_score (technicalLag (breakdown (calculateCompositeScore cm pm))) =
     calculateTechnicalLagScore cm
       (case maintenance pm of None \<Rightarrow> emptyMaintenance | Some m \<Rightarrow> m)"
  "f_score (communitySignals (breakdown (calculateCompositeScore cm pm))) = 50"
  "riskLevel (calculateCompositeScore cm pm) =
     getRiskLevel (totalScore (calculateCompositeScore cm pm))"
  "totalScore (calculateCompositeScore cm pm) =
     weightedTotal
       (calculateCVEScore (Some cm))
       (falsy_or (Option.bind (maintenance pm) m_score) 50)
       (falsy_or (Option.bind (complexity pm) c_score) 50)
       (calculateTechnicalLagScore cm
          (case maintenance pm of None \<Rightarrow> emptyMaintenance | Some m \<Rightarrow> m))
       50"
  by (simp_all add: calculateCompositeScore_def weightedTotal_def Let_def factor_def)

text \<open>
  C2. Every composite score that \<open>analyzePackage\<close> produces has its total and each of its
  five sub-scores between 0 and 100, and its risk level is read off the total by the
  table: from 80 \<open>LOW\<close>, from 60 \<open>MEDIUM\<close>, from 40 \<open>ELEVATED\<close>, from 20 \<open>HIGH\<close>, below
  \<open>CRITICAL\<close>; the table at its boundaries.
\<close>

theorem engine_scores_in_range:
  assumes run: "analyzePackage w metricsOf now name version concurrency shallow st = Some (r, st')"
      and sc: "score r = Some s"
  shows "0 \<le> totalScore s \<and> totalScore s \<le> 100 \<and>
         (\<forall>f \<in> {historicalCVEs (breakdown s), maintenanceHealth (breakdown s),
                 dependencyComplexity (breakdown s), technicalLag (breakdown s),
                 communitySignals (breakdown s)}. 0 \<le> f_score f \<and> f_score f \<le> 100) \<and>
         riskLevel s =
           (if totalScore s \<ge> 80 then LOW
            else if totalScore s \<ge> 60 then MEDIUM
            else if totalScore s \<ge> 40 then ELEVATED
            else if totalScore s \<ge> 20 then HIGH
            else CRITICAL) \<and>
         getRiskLevel 80 = LOW \<and> getRiskLevel 79 = MEDIUM \<and> getRiskLevel 60 = MEDIUM \<and>
         getRiskLevel 59 = ELEVATED \<and> getRiskLevel 40 = ELEVATED \<and> getRiskLevel 39 = HIGH \<and>
         getRiskLevel 20 = HIGH \<and> getRiskLevel 19 = CRITICAL \<and> getRiskLevel 0 = CRITICAL"
proof -
  from analyzePackage_built [OF run sc] obtain cm pm info c vi where
    s: "s = calculateCompositeScore cm pm"
    and m: "maintenance pm = Some (calculateMaintenanceMetrics now info)"
    and c: "complexity pm = Some c"
    and cs: "c_score c = c_score (calculateComplexityMetrics vi noOverrides)"
    by blast
  have cve: "0 \<le> calculateCVEScore (Some cm) \<and> calculateCVEScore (Some cm) \<le> 100"
    by (rule calculateCVEScore_range)
  have mr: "0 \<le> falsy_or (Option.bind (maintenance pm) m_score) 50 \<and>
            falsy_or (Option.bind (maintenance pm) m_score) 50 \<le> 100"
    using maintenance_score_range [of now info] by (intro falsy_or_50_range) (auto simp: m)
  have cr: "0 \<le> falsy_or (Option.bind (complexity pm) c_score) 50 \<and>
            falsy_or (Option.bind (complexity pm) c_score) 50 \<le> 100"
    using complexity_score_range [of vi noOverrides] by (intro falsy_or_50_range) (auto simp: c cs)
  have lag: "0 \<le> calculateTechnicalLagScore cm
                      (case maintenance pm of None \<Rightarrow> emptyMaintenance | Some m \<Rightarrow> m) \<and>
             calculateTechnicalLagScore cm
               (case maintenance pm of None \<Rightarrow> emptyMaintenance | Some m \<Rightarrow> m) \<le> 100"
    by (rule lag_range)
  have total: "0 \<le> totalScore s \<and> totalScore s \<le> 100"
    unfolding s composite_fields
    using cve mr cr lag by (intro weighted_round_range) simp_all
  have subs: "\<forall>f \<in> {historicalCVEs (breakdown s), maintenanceHealth (breakdown s),
                 dependencyComplexity (breakdown s), technicalLag (breakdown s),
                 communitySignals (breakdown s)}. 0 \<le> f_score f \<and> f_score f \<le> 100"
    using cve mr cr lag by (simp add: s composite_fields(1-5))
  have risk: "riskLevel s =
           (if totalScore s \<ge> 80 then LOW
            else if totalScore s \<ge> 60 then MEDIUM
            else if totalScore s \<ge> 40 then ELEVATED
            else if totalScore s \<ge> 20 then HIGH
            else CRITICAL)"
    unfolding s composite_fields(6) by (simp add: getRiskLevel_def)
  have table: "getRiskLevel 80 = LOW \<and> getRiskLevel 79 = MEDIUM \<and> getRiskLevel 60 = MEDIUM \<and>
         getRiskLevel 59 = ELEVATED \<and> getRiskLevel 40 = ELEVATED \<and> getRiskLevel 39 = HIGH \<and>
         getRiskLevel 20 = HIGH \<and> getRiskLevel 19 = CRITICAL \<and> getRiskLevel 0 = CRITICAL"
    by (simp add: getRiskLevel_def)
  show ?thesis using total subs risk table by blast
qed

lemma analyzePackage_example:
  "\<exists>r st'.
     analyzePackage exampleWorld (\<lambda>_. manyFindings) 0 ''pkg-b'' None 5 True seededState
       = Some (r, st') \<and>
     score r =
       Some (calculateCompositeScore manyFindings
         \<lparr>found = False,
          maintenance = Some (calculateMaintenanceMetrics 0 None),
          complexity = Some ((calculateComplexityMetrics None noOverrides)
             \<lparr>totalDependencies := Some 1, directDependencies := Some 0\<rparr>)\<rparr>)"
  by (simp add: analyzePackage_def getTransitiveCVEMetrics_def
        getPackageVulnerabilityMetrics_def queryVulnerabilities_def vulns_or_empty_def
        getPackageMetrics_def getPackageInfo_def exampleWorld_def Let_def)

lemma example_total:
  "totalScore (calculateCompositeScore manyFindings
         \<lparr>found = False,
          maintenance = Some (calculateMaintenanceMetrics 0 None),
          complexity = Some ((calculateComplexityMetrics None noOverrides)
             \<lparr>totalDependencies := Some 1, directDependencies := Some 0\<rparr>)\<rparr>) = 52"
proof -
  have cve: "calculateCVEScore (Some manyFindings) = 35"
    by (simp add: calculateCVEScore_def manyFindings_def falsy_or_def clamp100_def)
  have lag: "calculateTechnicalLagScore manyFindings (calculateMaintenanceMetrics 0 None) = 60"
    by (simp add: calculateTechnicalLagScore_def calculateMaintenanceMetrics_def
          manyFindings_def recentCVEs_def falsy_or_def clamp100_def)
  have ms: "m_score (calculateMaintenanceMetrics 0 None) = Some 0"
    by (simp add: calculateMaintenanceMetrics_def)
  have cs: "c_score (calculateComplexityMetrics None noOverrides) = Some 100"
    by (simp add: calculateComplexityMetrics_def)
  show ?thesis
    unfolding composite_fields
    by (simp add: cve lag ms cs falsy_or_def)
       (simp add: weightedTotal_def weights double_eval Math_round_def)
qed

text \<open>
  A shallow analysis of a package the registry does not know, with many findings:
  17.5 + 5 + 15 + 9 + 5 = 51.5 rounds to 52, \<open>ELEVATED\<close>.
\<close>

theorem engine_scores_in_range_witness:
  "\<exists>r st' s.
     analyzePackage exampleWorld (\<lambda>_. manyFindings) 0 ''pkg-b'' None 5 True seededState
       = Some (r, st') \<and>
     score r = Some s \<and> totalScore s = 52 \<and> riskLevel s = ELEVATED \<and>
     0 \<le> f_score (maintenanceHealth (breakdown s)) \<and>
     f_score (maintenanceHealth (breakdown s)) \<le> 100"
proof -
  from analyzePackage_example obtain r st' s where
    run: "analyzePackage exampleWorld (\<lambda>_. manyFindings) 0 ''pkg-b'' None 5 True seededState
            = Some (r, st')"
    and sc: "score r = Some s"
    and s: "s = calculateCompositeScore manyFindings
         \<lparr>found = False,
          maintenance = Some (calculateMaintenanceMetrics 0 None),
          complexity = Some ((calculateComplexityMetrics None noOverrides)
             \<lparr>totalDependencies := Some 1, directDependencies := Some 0\<rparr>)\<rparr>"
    by blast
  have total: "totalScore s = 52" unfolding s by (rule example_total)
  note range = engine_scores_in_range [OF run sc]
  have "riskLevel s = ELEVATED" using range total by simp
  moreover have "0 \<le> f_score (maintenanceHealth (breakdown s)) \<and>
                 f_score (maintenanceHealth (breakdown s)) \<le> 100"
    using range by simp
  ultimately show ?thesis using run sc total by blast
qed


end
